theory Spec2Isabelle
  imports Main "HOL-Library.Word" "HOL-Library.Char_ord" "HOL-Library.List_Lexorder"
    "HOL-Library.AList"
begin

section \<open>Errors and dynamically typed column values\<close>

text \<open>
  The four sentinel errors of \<^verbatim>\<open>ksql.go\<close> (\<^verbatim>\<open>ErrNoRows\<close> is \<^verbatim>\<open>sql.ErrNoRows\<close>), and
  \<open>DriverError\<close> for every other error value that database/sql hands through.
\<close>

datatype error =
    ErrNoRows
  | ErrDupConnName
  | ErrColumnNotFound
  | ErrInvalidColumnTypeConversion
  | DriverError string

text \<open>
  A decoded column is a Go \<^verbatim>\<open>interface{}\<close>: a value together with its dynamic type. The
  constructors are the dynamic types that the type switches of \<^verbatim>\<open>ksql.go\<close> tell apart,
  plus the kinds they reject. \<open>VNil\<close> is the nil interface, which is also what reading a
  missing key or a nil map yields. Go's \<^verbatim>\<open>int\<close> is taken at 64 bits. A \<^verbatim>\<open>time.Time\<close> is
  kept as its nanoseconds since the epoch; floating-point numbers are kept as their bit
  patterns.
\<close>

datatype gotime = Time int

datatype val =
    VNil
  | VBool bool
  | VInt "64 word"
  | VInt8 "8 word"
  | VInt16 "16 word"
  | VInt32 "32 word"
  | VInt64 "64 word"
  | VUint "64 word"
  | VUint8 "8 word"
  | VUint16 "16 word"
  | VUint32 "32 word"
  | VUint64 "64 word"
  | VFloat32 "32 word"
  | VFloat64 "64 word"
  | VString string
  | VBytes "8 word list"
  | VTime gotime

text \<open>
  The \<^verbatim>\<open>float64\<close> that \<^verbatim>\<open>reflect.Value.Float\<close> returns: a \<^verbatim>\<open>float64\<close> as it is, or the
  exact widening of a \<^verbatim>\<open>float32\<close>, kept symbolically.
\<close>

datatype float64 = Float64 "64 word" | Float64of32 "32 word"

section \<open>The wrapped stream of database/sql\<close>

text \<open>
  \<^verbatim>\<open>*sql.Rows\<close> is not part of the repository. Its five operations that \<^verbatim>\<open>ksql.go\<close>
  calls are parameters, over an arbitrary stream state \<open>'s\<close>. \<open>sqlScan\<close> receives the
  current contents of the destinations and returns the values it stores, in order.
\<close>

record 's sqlRowsOps =
  sqlNext :: "'s \<Rightarrow> bool \<times> 's"
  sqlColumns :: "'s \<Rightarrow> string list option \<times> error option"
  sqlScan :: "'s \<Rightarrow> val list \<Rightarrow> error option \<times> val list \<times> 's"
  sqlErr :: "'s \<Rightarrow> error option"
  sqlClose :: "'s \<Rightarrow> error option \<times> 's"

text \<open>
  The embedded \<^verbatim>\<open>*sql.Rows\<close> of a cursor: the stream's state and, as a ghost field, the
  state-changing calls made on it so far, oldest first.
\<close>

datatype call = CallNext | CallScan | CallClose

record 's stream =
  handle :: 's
  calls :: "call list"

text \<open>
  Scan writes through the destination pointers it is given: it can overwrite the first
  destinations and cannot change how many there are.
\<close>

definition scanInto :: "val list \<Rightarrow> val list \<Rightarrow> val list" where
  "scanInto written dest = take (length dest) written @ drop (length written) dest"

definition stream_Next :: "'s sqlRowsOps \<Rightarrow> 's stream \<Rightarrow> bool \<times> 's stream" where
  "stream_Next d x =
     (case sqlNext d (handle x) of
        (has, s) \<Rightarrow> (has, \<lparr>handle = s, calls = calls x @ [CallNext]\<rparr>))"

definition stream_Columns :: "'s sqlRowsOps \<Rightarrow> 's stream \<Rightarrow> string list option \<times> error option" where
  "stream_Columns d x = sqlColumns d (handle x)"

definition stream_Scan ::
  "'s sqlRowsOps \<Rightarrow> 's stream \<Rightarrow> val list \<Rightarrow> error option \<times> val list \<times> 's stream" where
  "stream_Scan d x dest =
     (case sqlScan d (handle x) dest of
        (e, written, s) \<Rightarrow>
          (e, scanInto written dest, \<lparr>handle = s, calls = calls x @ [CallScan]\<rparr>))"

definition stream_Err :: "'s sqlRowsOps \<Rightarrow> 's stream \<Rightarrow> error option" where
  "stream_Err d x = sqlErr d (handle x)"

definition stream_Close :: "'s sqlRowsOps \<Rightarrow> 's stream \<Rightarrow> error option \<times> 's stream" where
  "stream_Close d x =
     (case sqlClose d (handle x) of
        (e, s) \<Rightarrow> (e, \<lparr>handle = s, calls = calls x @ [CallClose]\<rparr>))"

section \<open>Rows: the buffered cursor\<close>

text \<open>
  \<^verbatim>\<open>type Rows struct { *sql.Rows; err; columns; loader; values }\<close>. A nil slice of column
  names and a nil map are \<open>None\<close>. The loader holds the contents of its boxes.
\<close>

record 's Rows =
  sqlRows :: "'s stream"
  err :: "error option"
  columns :: "string list option"
  loader :: "val list"
  "values" :: "(string \<rightharpoonup> val) option"

text \<open>\<^verbatim>\<open>&Rows{Rows: rows}\<close>, as Query builds it.\<close>

definition newRows :: "'s \<Rightarrow> 's Rows" where
  "newRows s =
     \<lparr>sqlRows = \<lparr>handle = s, calls = []\<rparr>, err = None, columns = None, loader = [],
      values = None\<rparr>"

definition Rows_Err :: "'s sqlRowsOps \<Rightarrow> 's Rows \<Rightarrow> error option" where
  "Rows_Err d rs =
     (case stream_Err d (sqlRows rs) of
        Some e \<Rightarrow> Some e
      | None \<Rightarrow> (case err rs of Some e \<Rightarrow> Some e | None \<Rightarrow> None))"

text \<open>\<^verbatim>\<open>len(rs.columns)\<close>: a nil slice has length 0 and ranges over nothing.\<close>

definition columnNames :: "string list option \<Rightarrow> string list" where
  "columnNames cs = (case cs of None \<Rightarrow> [] | Some names \<Rightarrow> names)"

text \<open>
  The block \<^verbatim>\<open>if rs.columns == nil { ... }\<close> of Next. \<open>Inl\<close> is its early
  \<^verbatim>\<open>return false\<close>, \<open>Inr\<close> falls through to the scan.
\<close>

definition Rows_prepare :: "'s sqlRowsOps \<Rightarrow> 's Rows \<Rightarrow> 's Rows + 's Rows" where
  "Rows_prepare d rs =
     (if columns rs = None then
        (case stream_Columns d (sqlRows rs) of
           (cs, e) \<Rightarrow>
             let rs1 = rs\<lparr>columns := cs, err := e\<rparr> in
             if e \<noteq> None then Inl rs1
             else Inr (rs1\<lparr>loader := replicate (length (columnNames cs)) VNil,
                           values := Some Map.empty\<rparr>))
      else Inr rs)"

text \<open>
  The loop \<^verbatim>\<open>for i := range rs.columns { rs.values[rs.columns[i]] = *rs.loader[i] }\<close>,
  over the indices still to visit. \<open>None\<close> is a run-time panic: an index beyond the
  loader, or an assignment into a nil map.
\<close>

fun publish ::
  "string list \<Rightarrow> val list \<Rightarrow> nat list \<Rightarrow> (string \<rightharpoonup> val) option \<Rightarrow> (string \<rightharpoonup> val) option option" where
  "publish cs ld [] vals = Some vals"
| "publish cs ld (i # rest) vals =
     (if length ld \<le> i then None
      else case vals of
             None \<Rightarrow> None
           | Some m \<Rightarrow> publish cs ld rest (Some (m(cs ! i \<mapsto> ld ! i))))"

text \<open>The rest of Next: scan into the loader, then publish the loader by column name.\<close>

definition Rows_load :: "'s sqlRowsOps \<Rightarrow> 's Rows \<Rightarrow> (bool \<times> 's Rows) option" where
  "Rows_load d rs =
     (case stream_Scan d (sqlRows rs) (loader rs) of
        (e, ld, x) \<Rightarrow>
          let rs1 = rs\<lparr>sqlRows := x, loader := ld, err := e\<rparr> in
          if e \<noteq> None then Some (False, rs1)
          else (case publish (columnNames (columns rs1)) (loader rs1)
                       [0..<length (columnNames (columns rs1))] (values rs1) of
                  None \<Rightarrow> None
                | Some vals \<Rightarrow> Some (True, rs1\<lparr>values := vals\<rparr>)))"

text \<open>\<^verbatim>\<open>func (rs *Rows) Next() bool\<close>; \<open>None\<close> is a panic.\<close>

definition Rows_Next :: "'s sqlRowsOps \<Rightarrow> 's Rows \<Rightarrow> (bool \<times> 's Rows) option" where
  "Rows_Next d rs =
     (if err rs \<noteq> None then Some (False, rs)
      else case stream_Next d (sqlRows rs) of
             (has, x) \<Rightarrow>
               let rs1 = rs\<lparr>sqlRows := x\<rparr> in
               if \<not> has then Some (False, rs1)
               else (case Rows_prepare d rs1 of
                       Inl rs2 \<Rightarrow> Some (False, rs2)
                     | Inr rs2 \<Rightarrow> Rows_load d rs2))"

text \<open>\<^verbatim>\<open>rs.Close()\<close>, promoted from the embedded \<^verbatim>\<open>*sql.Rows\<close>.\<close>

definition Rows_Close :: "'s sqlRowsOps \<Rightarrow> 's Rows \<Rightarrow> error option \<times> 's Rows" where
  "Rows_Close d rs =
     (case stream_Close d (sqlRows rs) of (e, x) \<Rightarrow> (e, rs\<lparr>sqlRows := x\<rparr>))"

subsection \<open>Typed getters of the cursor\<close>

text \<open>\<^verbatim>\<open>rs.values[column]\<close> read as a value: the nil interface when there is none.\<close>

definition valueAt :: "(string \<rightharpoonup> val) option \<Rightarrow> string \<Rightarrow> val" where
  "valueAt vals column =
     (case vals of
        None \<Rightarrow> VNil
      | Some m \<Rightarrow> (case m column of None \<Rightarrow> VNil | Some v \<Rightarrow> v))"

definition validateRows :: "'s sqlRowsOps \<Rightarrow> 's Rows \<Rightarrow> string \<Rightarrow> error option" where
  "validateRows d rs column =
     (case Rows_Err d rs of
        Some e \<Rightarrow> Some e
      | None \<Rightarrow>
          (case values rs of
             None \<Rightarrow> Some ErrNoRows
           | Some m \<Rightarrow> (if m column = None then Some ErrColumnNotFound else None)))"

fun convertToInt :: "val \<Rightarrow> error + 64 word" where
  "convertToInt (VInt w) = Inr (scast w)"
| "convertToInt (VInt8 w) = Inr (scast w)"
| "convertToInt (VInt16 w) = Inr (scast w)"
| "convertToInt (VInt32 w) = Inr (scast w)"
| "convertToInt (VInt64 w) = Inr (scast w)"
| "convertToInt _ = Inl ErrInvalidColumnTypeConversion"

fun convertToDouble :: "val \<Rightarrow> error + float64" where
  "convertToDouble (VFloat32 w) = Inr (Float64of32 w)"
| "convertToDouble (VFloat64 w) = Inr (Float64 w)"
| "convertToDouble _ = Inl ErrInvalidColumnTypeConversion"

fun convertToString :: "val \<Rightarrow> error + string" where
  "convertToString (VString s) = Inr s"
| "convertToString _ = Inl ErrInvalidColumnTypeConversion"

fun convertToTime :: "val \<Rightarrow> error + gotime" where
  "convertToTime (VTime t) = Inr t"
| "convertToTime _ = Inl ErrInvalidColumnTypeConversion"

text \<open>\<^verbatim>\<open>value, ok := rs.values[column].(bool)\<close>\<close>

fun assertBool :: "val \<Rightarrow> error + bool" where
  "assertBool (VBool b) = Inr b"
| "assertBool _ = Inl ErrInvalidColumnTypeConversion"

definition Rows_GetBoolean :: "'s Rows \<Rightarrow> string \<Rightarrow> error + bool" where
  "Rows_GetBoolean rs column = assertBool (valueAt (values rs) column)"

definition Rows_GetInteger :: "'s sqlRowsOps \<Rightarrow> 's Rows \<Rightarrow> string \<Rightarrow> error + 64 word" where
  "Rows_GetInteger d rs column =
     (case validateRows d rs column of
        Some e \<Rightarrow> Inl e
      | None \<Rightarrow> convertToInt (valueAt (values rs) column))"

definition Rows_GetDouble :: "'s sqlRowsOps \<Rightarrow> 's Rows \<Rightarrow> string \<Rightarrow> error + float64" where
  "Rows_GetDouble d rs column =
     (case validateRows d rs column of
        Some e \<Rightarrow> Inl e
      | None \<Rightarrow> convertToDouble (valueAt (values rs) column))"

definition Rows_GetString :: "'s sqlRowsOps \<Rightarrow> 's Rows \<Rightarrow> string \<Rightarrow> error + string" where
  "Rows_GetString d rs column =
     (case validateRows d rs column of
        Some e \<Rightarrow> Inl e
      | None \<Rightarrow> convertToString (valueAt (values rs) column))"

definition Rows_GetTime :: "'s sqlRowsOps \<Rightarrow> 's Rows \<Rightarrow> string \<Rightarrow> error + gotime" where
  "Rows_GetTime d rs column =
     (case validateRows d rs column of
        Some e \<Rightarrow> Inl e
      | None \<Rightarrow> convertToTime (valueAt (values rs) column))"

section \<open>A scripted stream\<close>

text \<open>
  A stream over a fixed result set, behaving as database/sql's Rows does: Next hands out
  the pending fetches in order and closes the stream when they run out or one fails;
  Columns and Scan fail on a closed stream; Scan needs one destination per column.
\<close>

datatype fetch = Fetched "val list" | Broken error

record script =
  names :: "string list"
  pending :: "fetch list"
  current :: "val list option"
  lasterr :: "error option"
  closed :: bool

definition scriptNext :: "script \<Rightarrow> bool \<times> script" where
  "scriptNext s =
     (if closed s then (False, s)
      else case pending s of
             [] \<Rightarrow> (False, s\<lparr>current := None, closed := True\<rparr>)
           | Fetched vs # rest \<Rightarrow> (True, s\<lparr>pending := rest, current := Some vs\<rparr>)
           | Broken e # rest \<Rightarrow>
               (False, s\<lparr>pending := rest, current := None, lasterr := Some e, closed := True\<rparr>))"

definition scriptColumns :: "script \<Rightarrow> string list option \<times> error option" where
  "scriptColumns s =
     (if closed s then (None, Some (DriverError ''sql: Rows are closed''))
      else (Some (names s), None))"

definition scriptScan :: "script \<Rightarrow> val list \<Rightarrow> error option \<times> val list \<times> script" where
  "scriptScan s dest =
     (if closed s then (Some (DriverError ''sql: Rows are closed''), [], s)
      else case current s of
             None \<Rightarrow> (Some (DriverError ''sql: Scan called without calling Next''), [], s)
           | Some vs \<Rightarrow>
               if length dest \<noteq> length vs
               then (Some (DriverError ''sql: wrong number of destination arguments''), [], s)
               else (None, vs, s))"

definition scriptClose :: "script \<Rightarrow> error option \<times> script" where
  "scriptClose s = (None, s\<lparr>closed := True\<rparr>)"

definition scripted :: "script sqlRowsOps" where
  "scripted =
     \<lparr>sqlNext = scriptNext, sqlColumns = scriptColumns, sqlScan = scriptScan,
      sqlErr = lasterr, sqlClose = scriptClose\<rparr>"

definition resultSet :: "string list \<Rightarrow> fetch list \<Rightarrow> script" where
  "resultSet cs fs = \<lparr>names = cs, pending = fs, current = None, lasterr = None, closed = False\<rparr>"

text \<open>Next called \<open>n\<close> times in a row: what each call returned, oldest first.\<close>

fun Next_times :: "'s sqlRowsOps \<Rightarrow> nat \<Rightarrow> 's Rows \<Rightarrow> (bool list \<times> 's Rows) option" where
  "Next_times d 0 rs = Some ([], rs)"
| "Next_times d (Suc n) rs =
     (case Rows_Next d rs of
        None \<Rightarrow> None
      | Some (b, rs1) \<Rightarrow>
          (case Next_times d n rs1 of
             None \<Rightarrow> None
           | Some (bs, rs2) \<Rightarrow> Some (b # bs, rs2)))"

text \<open>
  The snapshot holds exactly the row in the loader: one entry per column name, and where a
  name occurs twice the later column wins, as in the publishing loop.
\<close>

definition snapshotOf :: "'s Rows \<Rightarrow> bool" where
  "snapshotOf rs =
     (length (loader rs) = length (columnNames (columns rs)) \<and>
      values rs = Some (map_of (rev (zip (columnNames (columns rs)) (loader rs)))))"

text \<open>
  The states a cursor can be in: failed, or before its columns were fetched, or holding
  the snapshot of the loader's row.
\<close>

definition Rows_ok :: "'s Rows \<Rightarrow> bool" where
  "Rows_ok rs = (err rs \<noteq> None \<or> columns rs = None \<or> snapshotOf rs)"

text \<open>
  The loader of \<open>rs'\<close> is what Scan stored, without error, after the stream of \<open>rs\<close>
  moved forward: \<open>rs'\<close> holds the row fetched by that advance.
\<close>

definition scanned :: "'s sqlRowsOps \<Rightarrow> 's Rows \<Rightarrow> 's Rows \<Rightarrow> bool" where
  "scanned d rs rs' =
     (\<exists>ld0. length ld0 = length (columnNames (columns rs')) \<and>
        stream_Scan d (snd (stream_Next d (sqlRows rs))) ld0 = (None, loader rs', sqlRows rs'))"

text \<open>
  The convention of database/sql that the cursor relies on after exhaustion: once the
  stream's Next has returned false, it returns false again.
\<close>

definition staysExhausted :: "'s sqlRowsOps \<Rightarrow> bool" where
  "staysExhausted d = (\<forall>s. \<not> fst (sqlNext d s) \<longrightarrow> \<not> fst (sqlNext d (snd (sqlNext d s))))"

text \<open>A cursor that cannot advance any more: failed, or over an exhausted stream.\<close>

definition spent :: "'s sqlRowsOps \<Rightarrow> 's Rows \<Rightarrow> bool" where
  "spent d rs = (err rs \<noteq> None \<or> \<not> fst (sqlNext d (handle (sqlRows rs))))"

section \<open>Row: the single-row view\<close>

text \<open>
  \<^verbatim>\<open>type Row struct { err error; next bool; rows *Rows }\<close>. The fields \<^verbatim>\<open>err\<close> and
  \<^verbatim>\<open>next\<close> are \<open>row_err\<close> and \<open>row_next\<close>; a nil \<^verbatim>\<open>rows\<close> is \<open>None\<close>. The view is the
  only holder of its cursor, so the cursor is kept inside the record.
\<close>

record 's Row =
  row_err :: "error option"
  row_next :: bool
  rows :: "'s Rows option"

text \<open>
  \<^verbatim>\<open>QueryRow\<close>: \<^verbatim>\<open>rows, err := db.Query(...); return &Row{rows: rows, err: err}\<close>, where
  Query returns either an error and a nil cursor, or \<^verbatim>\<open>&Rows{Rows: rows}\<close>.
\<close>

definition QueryRow :: "error + 's \<Rightarrow> 's Row" where
  "QueryRow q =
     (case q of
        Inl e \<Rightarrow> \<lparr>row_err = Some e, row_next = False, rows = None\<rparr>
      | Inr s \<Rightarrow> \<lparr>row_err = None, row_next = False, rows = Some (newRows s)\<rparr>)"

text \<open>The deferred \<^verbatim>\<open>r.rows.Close()\<close>: it runs as the function returns; its result is dropped.\<close>

definition deferredClose :: "'s sqlRowsOps \<Rightarrow> 's Rows \<Rightarrow> 's Rows" where
  "deferredClose d rs = snd (Rows_Close d rs)"

text \<open>
  \<^verbatim>\<open>if err := r.rows.Err(); err != nil { return err }; return ErrNoRows\<close>
\<close>

definition noRowError :: "'s sqlRowsOps \<Rightarrow> 's Rows \<Rightarrow> error" where
  "noRowError d rs = (case Rows_Err d rs of Some e \<Rightarrow> e | None \<Rightarrow> ErrNoRows)"

text \<open>
  \<^verbatim>\<open>func (r *Row) Scan(dest ...interface{}) error\<close>. The result is the error, the
  destinations and the view afterwards. \<open>None\<close> is the nil-pointer panic of
  \<^verbatim>\<open>defer r.rows.Close()\<close> on a nil cursor, or a panic inside Next.
\<close>

definition Row_Scan ::
  "'s sqlRowsOps \<Rightarrow> 's Row \<Rightarrow> val list \<Rightarrow> (error option \<times> val list \<times> 's Row) option" where
  "Row_Scan d r dest =
     (case row_err r of
        Some e \<Rightarrow> Some (Some e, dest, r)
      | None \<Rightarrow>
          (case rows r of
             None \<Rightarrow> None
           | Some rs \<Rightarrow>
               (case Rows_Next d rs of
                  None \<Rightarrow> None
                | Some (found, rs1) \<Rightarrow>
                    if \<not> found
                    then Some (Some (noRowError d rs1), dest,
                               r\<lparr>rows := Some (deferredClose d rs1)\<rparr>)
                    else (case stream_Scan d (sqlRows rs1) dest of
                            (e, dest1, x) \<Rightarrow>
                              let rs2 = rs1\<lparr>sqlRows := x\<rparr> in
                              if e \<noteq> None
                              then Some (e, dest1, r\<lparr>rows := Some (deferredClose d rs2)\<rparr>)
                              else (case Rows_Close d rs2 of
                                      (ce, rs3) \<Rightarrow>
                                        Some (ce, dest1,
                                              r\<lparr>rows := Some (deferredClose d rs3)\<rparr>))))))"

text \<open>\<^verbatim>\<open>func next(r *Row) error\<close>, with the same panics.\<close>

definition Row_next :: "'s sqlRowsOps \<Rightarrow> 's Row \<Rightarrow> (error option \<times> 's Row) option" where
  "Row_next d r =
     (if row_next r then Some (None, r)
      else let r1 = r\<lparr>row_next := True\<rparr> in
           case rows r1 of
             None \<Rightarrow> None
           | Some rs \<Rightarrow>
               (case Rows_Next d rs of
                  None \<Rightarrow> None
                | Some (found, rs1) \<Rightarrow>
                    if \<not> found
                    then Some (Some (noRowError d rs1),
                               r1\<lparr>rows := Some (deferredClose d rs1)\<rparr>)
                    else (case Rows_Close d rs1 of
                            (ce, rs2) \<Rightarrow>
                              Some (ce, r1\<lparr>rows := Some (deferredClose d rs2)\<rparr>))))"

text \<open>
  The five getters of the view: \<^verbatim>\<open>if err := next(r); err != nil { return zero, err }\<close>,
  then the cursor's getter; calling that on a nil cursor panics.
\<close>

definition Row_get ::
  "'s sqlRowsOps \<Rightarrow> ('s Rows \<Rightarrow> error + 'a) \<Rightarrow> 's Row \<Rightarrow> ((error + 'a) \<times> 's Row) option" where
  "Row_get d getter r =
     (case Row_next d r of
        None \<Rightarrow> None
      | Some (Some e, r1) \<Rightarrow> Some (Inl e, r1)
      | Some (None, r1) \<Rightarrow>
          (case rows r1 of
             None \<Rightarrow> None
           | Some rs \<Rightarrow> Some (getter rs, r1)))"

definition Row_GetBoolean ::
  "'s sqlRowsOps \<Rightarrow> 's Row \<Rightarrow> string \<Rightarrow> ((error + bool) \<times> 's Row) option" where
  "Row_GetBoolean d r column = Row_get d (\<lambda>rs. Rows_GetBoolean rs column) r"

definition Row_GetInteger ::
  "'s sqlRowsOps \<Rightarrow> 's Row \<Rightarrow> string \<Rightarrow> ((error + 64 word) \<times> 's Row) option" where
  "Row_GetInteger d r column = Row_get d (\<lambda>rs. Rows_GetInteger d rs column) r"

definition Row_GetDouble ::
  "'s sqlRowsOps \<Rightarrow> 's Row \<Rightarrow> string \<Rightarrow> ((error + float64) \<times> 's Row) option" where
  "Row_GetDouble d r column = Row_get d (\<lambda>rs. Rows_GetDouble d rs column) r"

definition Row_GetString ::
  "'s sqlRowsOps \<Rightarrow> 's Row \<Rightarrow> string \<Rightarrow> ((error + string) \<times> 's Row) option" where
  "Row_GetString d r column = Row_get d (\<lambda>rs. Rows_GetString d rs column) r"

definition Row_GetTime ::
  "'s sqlRowsOps \<Rightarrow> 's Row \<Rightarrow> string \<Rightarrow> ((error + gotime) \<times> 's Row) option" where
  "Row_GetTime d r column = Row_get d (\<lambda>rs. Rows_GetTime d rs column) r"

subsection \<open>Callers of the view\<close>

text \<open>One call on a view, and the view it leaves behind; a sequence of calls.\<close>

datatype request =
    CallScanRow "val list"
  | CallGetBoolean string
  | CallGetInteger string
  | CallGetDouble string
  | CallGetString string
  | CallGetTime string

fun isGetter :: "request \<Rightarrow> bool" where
  "isGetter (CallScanRow dest) = False"
| "isGetter _ = True"

fun Row_call :: "'s sqlRowsOps \<Rightarrow> 's Row \<Rightarrow> request \<Rightarrow> 's Row option" where
  "Row_call d r (CallScanRow dest) = map_option (\<lambda>(e, ds, r1). r1) (Row_Scan d r dest)"
| "Row_call d r (CallGetBoolean c) = map_option snd (Row_GetBoolean d r c)"
| "Row_call d r (CallGetInteger c) = map_option snd (Row_GetInteger d r c)"
| "Row_call d r (CallGetDouble c) = map_option snd (Row_GetDouble d r c)"
| "Row_call d r (CallGetString c) = map_option snd (Row_GetString d r c)"
| "Row_call d r (CallGetTime c) = map_option snd (Row_GetTime d r c)"

fun Row_calls :: "'s sqlRowsOps \<Rightarrow> 's Row \<Rightarrow> request list \<Rightarrow> 's Row option" where
  "Row_calls d r [] = Some r"
| "Row_calls d r (q # qs) =
     (case Row_call d r q of None \<Rightarrow> None | Some r1 \<Rightarrow> Row_calls d r1 qs)"

text \<open>The calls made so far on the stream under a view, and how many of them were Next.\<close>

definition callsOf :: "'s Row \<Rightarrow> call list" where
  "callsOf r = (case rows r of None \<Rightarrow> [] | Some rs \<Rightarrow> calls (sqlRows rs))"

definition advances :: "call list \<Rightarrow> nat" where
  "advances cs = length (filter (\<lambda>c. c = CallNext) cs)"

section \<open>The registry of named connections\<close>

text \<open>
  \<^verbatim>\<open>type DB struct { *sql.DB }\<close>, handled through \<^verbatim>\<open>*DB\<close>: \<open>ref\<close> is the address of the
  struct, which is what \<^verbatim>\<open>db == pool[key]\<close> compares, and \<open>sqlDB\<close> the embedded pointer.
\<close>

record DB =
  ref :: nat
  sqlDB :: nat

text \<open>
  \<^verbatim>\<open>sql.Open\<close> and \<^verbatim>\<open>(*sql.DB).Close\<close> are not part of the repository: they are
  parameters, acting on a state \<open>'w\<close> of the connections outside.
\<close>

record 'w sqlPkg =
  sqlOpen :: "string \<Rightarrow> string \<Rightarrow> 'w \<Rightarrow> (error + nat) \<times> 'w"
  sqlDBClose :: "nat \<Rightarrow> 'w \<Rightarrow> error option \<times> 'w"

text \<open>
  The package state: the map \<^verbatim>\<open>pool\<close> as an association list (its order stands for an
  order in which \<^verbatim>\<open>range\<close> visits the keys), the next free address for a \<^verbatim>\<open>&DB{...}\<close>,
  and the connections outside.
\<close>

record 'w registry =
  pool :: "(string \<times> DB) list"
  free :: nat
  world :: 'w

text \<open>\<^verbatim>\<open>func init() { pool = make(map[string]*DB) }\<close>\<close>

definition init :: "'w \<Rightarrow> 'w registry" where
  "init w = \<lparr>pool = [], free = 0, world = w\<rparr>"

definition Databases :: "'w registry \<Rightarrow> string list" where
  "Databases g = sort (map fst (pool g))"

definition Get :: "string \<Rightarrow> 'w registry \<Rightarrow> DB option" where
  "Get name g = map_of (pool g) name"

text \<open>\<^verbatim>\<open>pool[name] = &DB{db}; return pool[name], nil\<close>\<close>

definition register :: "string \<Rightarrow> nat \<Rightarrow> 'w registry \<Rightarrow> (error + DB) \<times> 'w registry" where
  "register name c g =
     (let h = \<lparr>ref = free g, sqlDB = c\<rparr>
      in (Inr h, g\<lparr>pool := AList.update name h (pool g), free := Suc (free g)\<rparr>))"

definition New ::
  "'w sqlPkg \<Rightarrow> string \<Rightarrow> string \<Rightarrow> string \<Rightarrow> 'w registry \<Rightarrow> (error + DB) \<times> 'w registry" where
  "New pk name driver dsn g =
     (if map_of (pool g) name \<noteq> None then (Inl ErrDupConnName, g)
      else case sqlOpen pk driver dsn (world g) of
             (Inl e, w) \<Rightarrow> (Inl e, g\<lparr>world := w\<rparr>)
           | (Inr c, w) \<Rightarrow> register name c (g\<lparr>world := w\<rparr>))"

definition NewWithDB :: "string \<Rightarrow> nat \<Rightarrow> 'w registry \<Rightarrow> (error + DB) \<times> 'w registry" where
  "NewWithDB name c g =
     (if map_of (pool g) name \<noteq> None then (Inl ErrDupConnName, g)
      else register name c g)"

text \<open>
  The loop of \<^verbatim>\<open>func Close()\<close> over the keys still to visit. It returns the registry
  and, as a ghost result, what each underlying close returned, in visiting order.
  \<open>None\<close> is the nil-pointer panic of \<^verbatim>\<open>pool[key].DB\<close> on a key that is not in the map.
\<close>

fun Close_loop ::
  "'w sqlPkg \<Rightarrow> string list \<Rightarrow> 'w registry \<Rightarrow> ('w registry \<times> (string \<times> error option) list) option" where
  "Close_loop pk [] g = Some (g, [])"
| "Close_loop pk (key # keys) g =
     (case map_of (pool g) key of
        None \<Rightarrow> None
      | Some h \<Rightarrow>
          (case sqlDBClose pk (sqlDB h) (world g) of
             (e, w) \<Rightarrow>
               let g1 = (if e = None then g\<lparr>pool := AList.delete key (pool g), world := w\<rparr>
                         else g\<lparr>world := w\<rparr>)
               in (case Close_loop pk keys g1 of
                     None \<Rightarrow> None
                   | Some (g2, outcomes) \<Rightarrow> Some (g2, (key, e) # outcomes))))"

definition Close ::
  "'w sqlPkg \<Rightarrow> 'w registry \<Rightarrow> ('w registry \<times> (string \<times> error option) list) option" where
  "Close pk g = Close_loop pk (map fst (pool g)) g"

text \<open>
  What the underlying closes return when every entry of a list of registered handles is
  closed once, in order, each close acting on the connections as the one before left them.
\<close>

fun closeEach :: "'w sqlPkg \<Rightarrow> (string \<times> DB) list \<Rightarrow> 'w \<Rightarrow> (string \<times> error option) list \<times> 'w" where
  "closeEach pk [] w = ([], w)"
| "closeEach pk (kv # hs) w =
     (case sqlDBClose pk (sqlDB (snd kv)) w of
        (e, w1) \<Rightarrow> (case closeEach pk hs w1 of (es, w2) \<Rightarrow> ((fst kv, e) # es, w2)))"

text \<open>
  The loop of \<^verbatim>\<open>func (db *DB) Close()\<close>:
  \<^verbatim>\<open>for key := range pool { if db == pool[key] { delete(pool, key); break } }\<close>
\<close>

fun deregister :: "DB \<Rightarrow> string list \<Rightarrow> (string \<times> DB) list \<Rightarrow> (string \<times> DB) list" where
  "deregister db [] p = p"
| "deregister db (key # keys) p =
     (if map_option ref (map_of p key) = Some (ref db) then AList.delete key p
      else deregister db keys p)"

definition DB_Close :: "'w sqlPkg \<Rightarrow> DB \<Rightarrow> 'w registry \<Rightarrow> error option \<times> 'w registry" where
  "DB_Close pk db g =
     (case sqlDBClose pk (sqlDB db) (world g) of
        (Some e, w) \<Rightarrow> (Some e, g\<lparr>world := w\<rparr>)
      | (None, w) \<Rightarrow>
          (None, g\<lparr>pool := deregister db (map fst (pool g)) (pool g), world := w\<rparr>))"

text \<open>
  What holds of every registry that the package can be in: the keys of a map are
  distinct, and every \<^verbatim>\<open>&DB{...}\<close> is a fresh allocation, so no two names hold the same
  handle.
\<close>

definition registry_ok :: "'w registry \<Rightarrow> bool" where
  "registry_ok g =
     (distinct (map fst (pool g)) \<and> distinct (map (\<lambda>kv. ref (snd kv)) (pool g)) \<and>
      list_all (\<lambda>kv. ref (snd kv) < free g) (pool g))"

section \<open>Fixtures\<close>

text \<open>
  The row of the repository's tests: \<^verbatim>\<open>insert into people values (1,'john doe','t',3.14,
  '2016-01-02 03:04:05')\<close>; 3.14 is the double \<^verbatim>\<open>0x40091EB851EB851F\<close>.
\<close>

definition peopleColumns :: "string list" where
  "peopleColumns = [''id'', ''name'', ''married'', ''ratio'', ''last_modified'']"

definition john :: "val list" where
  "john = [VInt64 1, VString ''john doe'', VBool True, VFloat64 0x40091EB851EB851F,
           VTime (Time 1451703845000000000)]"

definition people :: script where
  "people = resultSet peopleColumns [Fetched john]"

text \<open>A result set with no row, and one whose first fetch fails.\<close>

definition nobody :: script where
  "nobody = resultSet peopleColumns []"

definition broken :: script where
  "broken = resultSet peopleColumns [Broken (DriverError ''connection reset'')]"

definition johnSnapshot :: "string \<rightharpoonup> val" where
  "johnSnapshot =
     [''id'' \<mapsto> VInt64 1, ''name'' \<mapsto> VString ''john doe'', ''married'' \<mapsto> VBool True,
      ''ratio'' \<mapsto> VFloat64 0x40091EB851EB851F,
      ''last_modified'' \<mapsto> VTime (Time 1451703845000000000)]"

text \<open>A row that does not have the arity of its columns: Next finds it, Scan rejects it.\<close>

definition garbled :: script where
  "garbled = resultSet [''id''] [Fetched [VInt64 1, VInt64 2]]"

definition interrupted :: script where
  "interrupted = resultSet peopleColumns [Fetched john, Broken (DriverError ''connection reset'')]"

text \<open>
  A second row that does not have the arity of the columns: john is fetched, then the scan
  of the second row fails.
\<close>

definition ragged :: script where
  "ragged = resultSet peopleColumns [Fetched john, Fetched [VInt64 2]]"

text \<open>The cursors these leave behind: after one Next, and after two.\<close>

definition after :: "nat \<Rightarrow> script \<Rightarrow> script Rows" where
  "after n s =
     (case Next_times scripted n (newRows s) of
        Some (found, rs) \<Rightarrow> rs
      | None \<Rightarrow> newRows s)"

definition johnRows :: "script Rows" where
  "johnRows = after 1 people"

definition brokenRows :: "script Rows" where
  "brokenRows = after 1 broken"

definition interruptedRows :: "script Rows" where
  "interruptedRows = after 2 interrupted"

definition garbledRows :: "script Rows" where
  "garbledRows = after 1 garbled"

definition exhaustedRows :: "script Rows" where
  "exhaustedRows = after 2 people"

definition raggedFirst :: "script Rows" where
  "raggedFirst = after 1 ragged"

definition raggedRows :: "script Rows" where
  "raggedRows = after 2 ragged"

text \<open>
  The view of a query for john after its first getter: advanced once, closed by the
  explicit Close and again by the deferred one.
\<close>

definition johnRow :: "script Row" where
  "johnRow =
     \<lparr>row_err = None, row_next = True,
      rows = Some
        \<lparr>sqlRows = \<lparr>handle = \<lparr>names = peopleColumns, pending = [], current = Some john,
                              lasterr = None, closed = True\<rparr>,
                   calls = [CallNext, CallScan, CallClose, CallClose]\<rparr>,
         err = None, columns = Some peopleColumns, loader = john,
         values = Some johnSnapshot\<rparr>\<rparr>"

text \<open>
  The same query read by Scan first: the view that Scan leaves behind, and the view after
  the getter that follows it.
\<close>

definition afterScan :: "script Row" where
  "afterScan =
     \<lparr>row_err = None, row_next = False,
      rows = Some
        \<lparr>sqlRows = \<lparr>handle = \<lparr>names = peopleColumns, pending = [], current = Some john,
                              lasterr = None, closed = True\<rparr>,
                   calls = [CallNext, CallScan, CallScan, CallClose, CallClose]\<rparr>,
         err = None, columns = Some peopleColumns, loader = john,
         values = Some johnSnapshot\<rparr>\<rparr>"

definition afterScanGet :: "script Row" where
  "afterScanGet =
     \<lparr>row_err = None, row_next = True,
      rows = Some
        \<lparr>sqlRows = \<lparr>handle = \<lparr>names = peopleColumns, pending = [], current = Some john,
                              lasterr = None, closed = True\<rparr>,
                   calls = [CallNext, CallScan, CallScan, CallClose, CallClose, CallNext,
                            CallClose]\<rparr>,
         err = None, columns = Some peopleColumns, loader = john,
         values = Some johnSnapshot\<rparr>\<rparr>"






text \<open>
  Connections outside: the state counts the connections opened so far; closing
  connection 1 fails, every other close succeeds.
\<close>

definition testPkg :: "nat sqlPkg" where
  "testPkg =
     \<lparr>sqlOpen = (\<lambda>driver dsn n. (Inr n, Suc n)),
      sqlDBClose = (\<lambda>c n. (if c = 1 then Some (DriverError ''close failed'') else None, n))\<rparr>"

text \<open>Two registered names: \<open>b\<close> over connection 0, then \<open>a\<close> over connection 1.\<close>

definition twoNames :: "nat registry" where
  "twoNames =
     \<lparr>pool = [(''b'', \<lparr>ref = 0, sqlDB = 0\<rparr>), (''a'', \<lparr>ref = 1, sqlDB = 1\<rparr>)], free = 2,
      world = 2\<rparr>"

section \<open>The fixtures, evaluated\<close>

lemmas stream_defs =
  stream_Next_def stream_Columns_def stream_Scan_def stream_Err_def stream_Close_def

lemmas script_defs =
  scripted_def scriptNext_def scriptColumns_def scriptScan_def scriptClose_def resultSet_def

lemmas rows_defs =
  Rows_Next_def Rows_prepare_def Rows_load_def Rows_Err_def Rows_Close_def newRows_def
  columnNames_def scanInto_def

lemmas fixture_defs =
  people_def nobody_def broken_def interrupted_def garbled_def peopleColumns_def john_def
  johnSnapshot_def

lemma people_Next:
  "Rows_Next scripted (newRows people) = Some (True,
     \<lparr>sqlRows = \<lparr>handle = \<lparr>names = peopleColumns, pending = [], current = Some john,
                           lasterr = None, closed = False\<rparr>,
                calls = [CallNext, CallScan]\<rparr>,
      err = None, columns = Some peopleColumns, loader = john,
      values = Some johnSnapshot\<rparr>)"
  by (simp add: rows_defs stream_defs script_defs fixture_defs upt_conv_Cons)

lemma johnRows_eq:
  "johnRows =
     \<lparr>sqlRows = \<lparr>handle = \<lparr>names = peopleColumns, pending = [], current = Some john,
                           lasterr = None, closed = False\<rparr>,
                calls = [CallNext, CallScan]\<rparr>,
      err = None, columns = Some peopleColumns, loader = john,
      values = Some johnSnapshot\<rparr>"
  by (simp add: johnRows_def after_def people_Next)

lemma brokenRows_eq:
  "brokenRows =
     \<lparr>sqlRows = \<lparr>handle = \<lparr>names = peopleColumns, pending = [], current = None,
                           lasterr = Some (DriverError ''connection reset''), closed = True\<rparr>,
                calls = [CallNext]\<rparr>,
      err = None, columns = None, loader = [], values = None\<rparr>"
  by (simp add: brokenRows_def after_def rows_defs stream_defs script_defs fixture_defs)

lemma interruptedRows_eq:
  "interruptedRows =
     \<lparr>sqlRows = \<lparr>handle = \<lparr>names = peopleColumns, pending = [], current = None,
                           lasterr = Some (DriverError ''connection reset''), closed = True\<rparr>,
                calls = [CallNext, CallScan, CallNext]\<rparr>,
      err = None, columns = Some peopleColumns, loader = john, values = Some johnSnapshot\<rparr>"
  by (simp add: interruptedRows_def after_def numeral_2_eq_2 rows_defs stream_defs script_defs
      fixture_defs upt_conv_Cons)

lemma johnRows_Err: "Rows_Err scripted johnRows = None"
  by (simp add: johnRows_eq Rows_Err_def stream_Err_def scripted_def)

lemma brokenRows_Err: "Rows_Err scripted brokenRows = Some (DriverError ''connection reset'')"
  by (simp add: brokenRows_eq Rows_Err_def stream_Err_def scripted_def)

lemma interruptedRows_Err:
  "Rows_Err scripted interruptedRows = Some (DriverError ''connection reset'')"
  by (simp add: interruptedRows_eq Rows_Err_def stream_Err_def scripted_def)

lemma fresh_Err: "Rows_Err scripted (newRows (resultSet cs fs)) = None"
  by (simp add: Rows_Err_def stream_Err_def newRows_def scripted_def resultSet_def)

section \<open>Typed getters of the cursor: which error comes first\<close>

lemma validateRows_pending:
  "Rows_Err d rs = Some e \<Longrightarrow> validateRows d rs column = Some e"
  by (simp add: validateRows_def)

text \<open>
  C4. On a cursor whose snapshot is absent (no row has ever been positioned), GetBoolean
  returns ErrInvalidColumnTypeConversion for every column name, and so neither ErrNoRows
  nor ErrColumnNotFound: it asserts the kind of the value it reads and never calls
  validateRows, which on the same cursor makes GetInteger return ErrNoRows when no error
  is pending.
\<close>

theorem Rows_GetBoolean_no_row:
  assumes "values rs = None"
  shows "Rows_GetBoolean rs column = Inl ErrInvalidColumnTypeConversion
       \<and> Rows_GetBoolean rs column \<noteq> Inl ErrNoRows
       \<and> Rows_GetBoolean rs column \<noteq> Inl ErrColumnNotFound
       \<and> (Rows_Err d rs = None \<longrightarrow> Rows_GetInteger d rs column = Inl ErrNoRows)"
  using assms
  by (simp add: Rows_GetBoolean_def valueAt_def Rows_GetInteger_def validateRows_def)

theorem Rows_GetBoolean_no_row_witness:
  "values (newRows (resultSet [''id''] [Fetched [VInt64 1]])) = None
   \<and> Rows_GetBoolean (newRows (resultSet [''id''] [Fetched [VInt64 1]])) ''id''
       = Inl ErrInvalidColumnTypeConversion
   \<and> Rows_Err scripted (newRows (resultSet [''id''] [Fetched [VInt64 1]])) = None
   \<and> Rows_GetInteger scripted (newRows (resultSet [''id''] [Fetched [VInt64 1]])) ''id''
       = Inl ErrNoRows"
proof -
  have h: "values (newRows (resultSet [''id''] [Fetched [VInt64 1]])) = None"
    by (simp add: newRows_def)
  have e: "Rows_Err scripted (newRows (resultSet [''id''] [Fetched [VInt64 1]])) = None"
    by (simp add: Rows_Err_def stream_Err_def newRows_def scripted_def resultSet_def)
  from Rows_GetBoolean_no_row [OF h, of "''id''" scripted] h e show ?thesis
    by simp
qed

text \<open>
  C3, as stated, fails: a cursor whose stream broke on the first fetch has no snapshot and
  no row was ever positioned, yet GetInteger returns the stream's error, not ErrNoRows.
\<close>

theorem getters_errors_counterexample:
  "values brokenRows = None
   \<and> Rows_GetInteger scripted brokenRows ''id'' = Inl (DriverError ''connection reset'')"
  by (simp add: Rows_GetInteger_def validateRows_pending [OF brokenRows_Err])
    (simp add: brokenRows_eq)

text \<open>
  C3, amended. On a cursor with no pending error (neither the stream's nor the cursor's
  own), each of GetInteger, GetDouble, GetString and GetTime returns ErrNoRows when the
  snapshot is absent and ErrColumnNotFound when the name is not a key of the snapshot;
  otherwise it returns the conversion of the stored value, which fails with
  ErrInvalidColumnTypeConversion unless the value's kind is the accessor's: any signed
  integer kind for the integer accessor (sign-extended to 64 bits), float32 or float64 for
  the float accessor, exactly string and exactly time.Time for the other two.
\<close>

theorem getters_errors:
  assumes "Rows_Err d rs = None"
  shows "(values rs = None \<longrightarrow>
            Rows_GetInteger d rs column = Inl ErrNoRows \<and>
            Rows_GetDouble d rs column = Inl ErrNoRows \<and>
            Rows_GetString d rs column = Inl ErrNoRows \<and>
            Rows_GetTime d rs column = Inl ErrNoRows)
       \<and> (\<forall>m. values rs = Some m \<and> m column = None \<longrightarrow>
            Rows_GetInteger d rs column = Inl ErrColumnNotFound \<and>
            Rows_GetDouble d rs column = Inl ErrColumnNotFound \<and>
            Rows_GetString d rs column = Inl ErrColumnNotFound \<and>
            Rows_GetTime d rs column = Inl ErrColumnNotFound)
       \<and> (\<forall>m v. values rs = Some m \<and> m column = Some v \<longrightarrow>
            Rows_GetInteger d rs column = convertToInt v \<and>
            Rows_GetDouble d rs column = convertToDouble v \<and>
            Rows_GetString d rs column = convertToString v \<and>
            Rows_GetTime d rs column = convertToTime v \<and>
            (convertToInt v =
               (case v of VInt w \<Rightarrow> Inr w | VInt8 w \<Rightarrow> Inr (scast w) | VInt16 w \<Rightarrow> Inr (scast w)
                | VInt32 w \<Rightarrow> Inr (scast w) | VInt64 w \<Rightarrow> Inr w
                | _ \<Rightarrow> Inl ErrInvalidColumnTypeConversion)) \<and>
            (convertToDouble v =
               (case v of VFloat32 w \<Rightarrow> Inr (Float64of32 w) | VFloat64 w \<Rightarrow> Inr (Float64 w)
                | _ \<Rightarrow> Inl ErrInvalidColumnTypeConversion)) \<and>
            (convertToString v =
               (case v of VString s \<Rightarrow> Inr s | _ \<Rightarrow> Inl ErrInvalidColumnTypeConversion)) \<and>
            (convertToTime v =
               (case v of VTime t \<Rightarrow> Inr t | _ \<Rightarrow> Inl ErrInvalidColumnTypeConversion)))"
proof (intro conjI allI impI)
  fix m v
  show "convertToInt v =
          (case v of VInt w \<Rightarrow> Inr w | VInt8 w \<Rightarrow> Inr (scast w) | VInt16 w \<Rightarrow> Inr (scast w)
           | VInt32 w \<Rightarrow> Inr (scast w) | VInt64 w \<Rightarrow> Inr w
           | _ \<Rightarrow> Inl ErrInvalidColumnTypeConversion)"
    by (cases v) simp_all
next
  fix m v
  show "convertToDouble v =
          (case v of VFloat32 w \<Rightarrow> Inr (Float64of32 w) | VFloat64 w \<Rightarrow> Inr (Float64 w)
           | _ \<Rightarrow> Inl ErrInvalidColumnTypeConversion)"
    by (cases v) simp_all
next
  fix m v
  show "convertToString v =
          (case v of VString s \<Rightarrow> Inr s | _ \<Rightarrow> Inl ErrInvalidColumnTypeConversion)"
    by (cases v) simp_all
next
  fix m v
  show "convertToTime v =
          (case v of VTime t \<Rightarrow> Inr t | _ \<Rightarrow> Inl ErrInvalidColumnTypeConversion)"
    by (cases v) simp_all
qed (use assms in \<open>simp_all add: Rows_GetInteger_def Rows_GetDouble_def Rows_GetString_def
      Rows_GetTime_def validateRows_def valueAt_def\<close>)

theorem getters_errors_witness:
  "Rows_Err scripted johnRows = None
   \<and> Rows_Err scripted (newRows people) = None
   \<and> Rows_GetInteger scripted (newRows people) ''id'' = Inl ErrNoRows
   \<and> Rows_GetTime scripted (newRows people) ''id'' = Inl ErrNoRows
   \<and> Rows_GetInteger scripted johnRows ''missing_column'' = Inl ErrColumnNotFound
   \<and> Rows_GetInteger scripted johnRows ''id'' = Inr 1
   \<and> Rows_GetString scripted johnRows ''name'' = Inr ''john doe''
   \<and> Rows_GetString scripted johnRows ''ratio'' = Inl ErrInvalidColumnTypeConversion
   \<and> Rows_GetDouble scripted johnRows ''ratio'' = Inr (Float64 0x40091EB851EB851F)
   \<and> Rows_GetTime scripted johnRows ''last_modified'' = Inr (Time 1451703845000000000)"
proof -
  have fresh: "Rows_Err scripted (newRows people) = None"
    by (simp add: people_def fresh_Err)
  have v0: "values (newRows people) = None"
    by (simp add: newRows_def)
  have v1: "values johnRows = Some johnSnapshot"
    by (simp add: johnRows_eq)
  show ?thesis
    using getters_errors [OF fresh, of "''id''"]
      getters_errors [OF johnRows_Err, of "''missing_column''"]
      getters_errors [OF johnRows_Err, of "''id''"]
      getters_errors [OF johnRows_Err, of "''name''"]
      getters_errors [OF johnRows_Err, of "''ratio''"]
      getters_errors [OF johnRows_Err, of "''last_modified''"]
      fresh v0 johnRows_Err
    by (simp add: v1 johnSnapshot_def)
qed

text \<open>
  C10. On a cursor with a pending error, which is the stream's own error when there is one
  and the error recorded by Next otherwise, each of GetInteger, GetDouble, GetString and
  GetTime returns that error, whatever the snapshot and the column name are: validateRows
  asks Err before it looks at the snapshot, so the error comes before ErrNoRows and
  ErrColumnNotFound.
\<close>

theorem getters_pending_error:
  assumes "stream_Err d (sqlRows rs) = Some e
           \<or> (stream_Err d (sqlRows rs) = None \<and> err rs = Some e)"
  shows "Rows_Err d rs = Some e
       \<and> validateRows d rs column = Some e
       \<and> Rows_GetInteger d rs column = Inl e
       \<and> Rows_GetDouble d rs column = Inl e
       \<and> Rows_GetString d rs column = Inl e
       \<and> Rows_GetTime d rs column = Inl e"
proof -
  from assms have "Rows_Err d rs = Some e"
    by (auto simp add: Rows_Err_def)
  then show ?thesis
    by (simp add: Rows_GetInteger_def Rows_GetDouble_def Rows_GetString_def Rows_GetTime_def
        validateRows_def)
qed

theorem getters_pending_error_witness:
  "stream_Err scripted (sqlRows brokenRows) = Some (DriverError ''connection reset'')
   \<and> values brokenRows = None
   \<and> Rows_GetInteger scripted brokenRows ''id'' = Inl (DriverError ''connection reset'')
   \<and> stream_Err scripted (sqlRows interruptedRows) = Some (DriverError ''connection reset'')
   \<and> values interruptedRows = Some johnSnapshot
   \<and> johnSnapshot ''missing_column'' = None
   \<and> Rows_GetString scripted interruptedRows ''missing_column''
       = Inl (DriverError ''connection reset'')
   \<and> stream_Err scripted (sqlRows (johnRows\<lparr>err := Some (DriverError ''scan failed'')\<rparr>)) = None
   \<and> Rows_GetTime scripted (johnRows\<lparr>err := Some (DriverError ''scan failed'')\<rparr>) ''id''
       = Inl (DriverError ''scan failed'')"
proof -
  have b: "stream_Err scripted (sqlRows brokenRows) = Some (DriverError ''connection reset'')"
    by (simp add: brokenRows_eq stream_Err_def scripted_def)
  have i: "stream_Err scripted (sqlRows interruptedRows)
           = Some (DriverError ''connection reset'')"
    by (simp add: interruptedRows_eq stream_Err_def scripted_def)
  have j: "stream_Err scripted (sqlRows (johnRows\<lparr>err := Some (DriverError ''scan failed'')\<rparr>))
           = None
           \<and> err (johnRows\<lparr>err := Some (DriverError ''scan failed'')\<rparr>)
             = Some (DriverError ''scan failed'')"
    by (simp add: johnRows_eq stream_Err_def scripted_def)
  show ?thesis
    using getters_pending_error [OF disjI1 [OF b], of "''id''"]
      getters_pending_error [OF disjI1 [OF i], of "''missing_column''"]
      getters_pending_error [OF disjI2 [OF j], of "''id''"]
      b i j
    by (simp add: brokenRows_eq interruptedRows_eq johnSnapshot_def)
qed

section \<open>Next: the snapshot and the states of the cursor\<close>

lemma length_scanInto [simp]: "length (scanInto written dest) = length dest"
  by (simp add: scanInto_def)

lemma publish_None: "publish cs ld idx None = (if idx = [] then Some None else None)"
  by (cases idx) simp_all

lemma publish_fold:
  "\<forall>i\<in>set idx. i < length ld \<Longrightarrow>
   publish cs ld idx (Some m) = Some (Some (fold (\<lambda>i m. m(cs ! i \<mapsto> ld ! i)) idx m))"
  by (induction idx arbitrary: m) simp_all

lemma publish_panics:
  "\<exists>i\<in>set idx. length ld \<le> i \<Longrightarrow> publish cs ld idx (Some m) = None"
  by (induction idx arbitrary: m) auto

lemma fold_upto:
  "n \<le> length cs \<Longrightarrow> n \<le> length ld \<Longrightarrow>
   fold (\<lambda>i m. m(cs ! i \<mapsto> ld ! i)) [0..<n] m = m ++ map_of (rev (zip (take n cs) (take n ld)))"
proof (induction n)
  case 0
  then show ?case by simp
next
  case (Suc n)
  let ?f = "\<lambda>i m. m(cs ! i \<mapsto> ld ! i)"
  let ?row = "map_of (rev (zip (take n cs) (take n ld)))"
  have z: "zip (take (Suc n) cs) (take (Suc n) ld) = zip (take n cs) (take n ld) @ [(cs ! n, ld ! n)]"
    using Suc.prems by (simp add: take_Suc_conv_app_nth)
  have "fold ?f [0..<Suc n] m = (fold ?f [0..<n] m)(cs ! n \<mapsto> ld ! n)"
    by simp
  also have "\<dots> = (m ++ ?row)(cs ! n \<mapsto> ld ! n)"
  proof -
    from Suc.prems have "n \<le> length cs" and "n \<le> length ld"
      by simp_all
    from Suc.IH [OF this] show ?thesis
      by (rule arg_cong)
  qed
  also have "\<dots> = m ++ ?row(cs ! n \<mapsto> ld ! n)"
    by (simp only: map_add_upd)
  also have "?row(cs ! n \<mapsto> ld ! n) = map_of (rev (zip (take (Suc n) cs) (take (Suc n) ld)))"
    by (simp only: z rev_append rev.simps append.simps map_of.simps fst_conv snd_conv)
  finally show ?case .
qed

lemma publish_all:
  "length ld = length cs \<Longrightarrow>
   publish cs ld [0..<length cs] (Some m) = Some (Some (m ++ map_of (rev (zip cs ld))))"
  by (simp add: publish_fold fold_upto)

lemma dom_zip: "length ld = length cs \<Longrightarrow> dom (map_of (rev (zip cs ld))) = set cs"
  by (simp add: dom_map_of_conv_image_fst flip: set_map)

lemma map_add_covered: "dom m \<subseteq> dom n \<Longrightarrow> m ++ n = n"
  by (rule ext) (auto simp add: map_add_def split: option.splits)

lemma republish:
  "length ld = length cs \<Longrightarrow> length ld' = length cs \<Longrightarrow>
   map_of (rev (zip cs ld)) ++ map_of (rev (zip cs ld')) = map_of (rev (zip cs ld'))"
  by (rule map_add_covered) (simp add: dom_zip)

lemma Rows_ok_new: "Rows_ok (newRows s) \<and> values (newRows s) = None"
  by (simp add: Rows_ok_def newRows_def)

lemma prepare_cases:
  "Rows_prepare d rs = Inl rs2 \<Longrightarrow> err rs2 \<noteq> None \<and> values rs2 = values rs \<and> sqlRows rs2 = sqlRows rs"
  by (auto simp add: Rows_prepare_def Let_def split: if_splits prod.splits)

lemma prepare_fresh:
  "columns rs = None \<Longrightarrow> Rows_prepare d rs = Inr rs2 \<Longrightarrow>
   err rs2 = None \<and> values rs2 = Some Map.empty \<and> sqlRows rs2 = sqlRows rs \<and>
   length (loader rs2) = length (columnNames (columns rs2))"
  by (auto simp add: Rows_prepare_def Let_def split: if_splits prod.splits)

lemma prepare_kept: "columns rs = Some cs \<Longrightarrow> Rows_prepare d rs = Inr rs"
  by (simp add: Rows_prepare_def)

lemma load_result:
  assumes "length (loader rs) = length (columnNames (columns rs))" and "values rs = Some m"
  shows "\<exists>e ld x. stream_Scan d (sqlRows rs) (loader rs) = (e, ld, x) \<and>
           length ld = length (loader rs) \<and>
           Rows_load d rs =
             Some (if e \<noteq> None then (False, rs\<lparr>sqlRows := x, loader := ld, err := e\<rparr>)
                   else (True, rs\<lparr>sqlRows := x, loader := ld, err := e,
                                values := Some (m ++ map_of (rev (zip (columnNames (columns rs)) ld)))\<rparr>))"
proof -
  obtain e ld x where s: "stream_Scan d (sqlRows rs) (loader rs) = (e, ld, x)"
    by (cases "stream_Scan d (sqlRows rs) (loader rs)") auto
  then have l: "length ld = length (loader rs)"
    by (auto simp add: stream_Scan_def split: prod.splits)
  with assms have "publish (columnNames (columns rs)) ld [0..<length (columnNames (columns rs))] (Some m)
      = Some (Some (m ++ map_of (rev (zip (columnNames (columns rs)) ld))))"
    by (simp add: publish_all)
  with s l assms show ?thesis
    by (simp add: Rows_load_def Let_def)
qed

lemma snapshotOf_loaded:
  assumes "length ld = length (columnNames (columns rs))"
  shows "snapshotOf (rs\<lparr>sqlRows := x, loader := ld, err := e,
                        values := Some (map_of (rev (zip (columnNames (columns rs)) ld)))\<rparr>)"
  using assms by (simp add: snapshotOf_def)

lemma Next_failed: "err rs \<noteq> None \<Longrightarrow> Rows_Next d rs = Some (False, rs)"
  by (simp add: Rows_Next_def)

lemma Next_no_more:
  "err rs = None \<Longrightarrow> stream_Next d (sqlRows rs) = (False, x) \<Longrightarrow>
   Rows_Next d rs = Some (False, rs\<lparr>sqlRows := x\<rparr>)"
  by (simp add: Rows_Next_def)

lemma Next_more:
  "err rs = None \<Longrightarrow> stream_Next d (sqlRows rs) = (True, x) \<Longrightarrow>
   Rows_Next d rs =
     (case Rows_prepare d (rs\<lparr>sqlRows := x\<rparr>) of
        Inl rs2 \<Rightarrow> Some (False, rs2)
      | Inr rs2 \<Rightarrow> Rows_load d rs2)"
  by (simp add: Rows_Next_def)

lemma Next_step:
  assumes ok: "Rows_ok rs"
  shows "\<exists>b rs'. Rows_Next d rs = Some (b, rs') \<and> Rows_ok rs'
      \<and> (b \<longrightarrow> snapshotOf rs' \<and> err rs' = None \<and> scanned d rs rs')
      \<and> (\<not> b \<longrightarrow> values rs' = values rs \<or> (values rs' = Some Map.empty \<and> err rs' \<noteq> None))"
proof (cases "err rs = None")
  case False
  with ok show ?thesis
    by (auto simp add: Next_failed)
next
  case noerr: True
  obtain has x where n: "stream_Next d (sqlRows rs) = (has, x)"
    by (cases "stream_Next d (sqlRows rs)") auto
  show ?thesis
  proof (cases has)
    case False
    with noerr n ok show ?thesis
      by (auto simp add: Next_no_more Rows_ok_def snapshotOf_def)
  next
    case True
    let ?rs1 = "rs\<lparr>sqlRows := x\<rparr>"
    from True n noerr have nx: "Rows_Next d rs =
        (case Rows_prepare d ?rs1 of Inl rs2 \<Rightarrow> Some (False, rs2) | Inr rs2 \<Rightarrow> Rows_load d rs2)"
      by (simp add: Next_more)
    show ?thesis
    proof (cases "Rows_prepare d ?rs1")
      case (Inl rs2)
      from prepare_cases [OF Inl] nx Inl show ?thesis
        by (auto simp add: Rows_ok_def)
    next
      case (Inr rs2)
      have pre: "\<exists>m. values rs2 = Some m \<and> length (loader rs2) = length (columnNames (columns rs2))
                 \<and> sqlRows rs2 = x \<and> err rs2 = None
                 \<and> m ++ map_of (rev (zip (columnNames (columns rs2)) ld))
                     = map_of (rev (zip (columnNames (columns rs2)) ld))
                 \<and> (m = Map.empty \<or> values rs2 = values rs)" if "length ld = length (loader rs2)" for ld
      proof (cases "columns rs")
        case None
        then have "columns ?rs1 = None" by simp
        from prepare_fresh [OF this Inr] show ?thesis by simp
      next
        case (Some cs)
        then have "Rows_prepare d ?rs1 = Inr ?rs1"
          by (simp add: prepare_kept)
        with Inr have eq: "rs2 = ?rs1" by simp
        from ok noerr Some have "snapshotOf rs"
          by (simp add: Rows_ok_def)
        with eq that noerr show ?thesis
          by (simp add: snapshotOf_def republish)
      qed
      obtain e ld x2 where sc: "stream_Scan d (sqlRows rs2) (loader rs2) = (e, ld, x2)"
        by (cases "stream_Scan d (sqlRows rs2) (loader rs2)") auto
      then have len: "length ld = length (loader rs2)"
        by (auto simp add: stream_Scan_def split: prod.splits)
      from pre [OF len] obtain m where m: "values rs2 = Some m"
        and l2: "length (loader rs2) = length (columnNames (columns rs2))"
        and x: "sqlRows rs2 = x" and e2: "err rs2 = None"
        and cover: "m ++ map_of (rev (zip (columnNames (columns rs2)) ld))
                     = map_of (rev (zip (columnNames (columns rs2)) ld))"
        and old: "m = Map.empty \<or> values rs2 = values rs"
        by blast
      from load_result [OF l2 m, of d] sc
      have ld: "Rows_load d rs2 =
             Some (if e \<noteq> None then (False, rs2\<lparr>sqlRows := x2, loader := ld, err := e\<rparr>)
                   else (True, rs2\<lparr>sqlRows := x2, loader := ld, err := e,
                                values := Some (m ++ map_of (rev (zip (columnNames (columns rs2)) ld)))\<rparr>))"
        by simp
      show ?thesis
      proof (cases "e = None")
        case False
        with nx Inr ld m old show ?thesis
          by (auto simp add: Rows_ok_def)
      next
        case True
        have sn: "snapshotOf (rs2\<lparr>sqlRows := x2, loader := ld, err := e,
                   values := Some (map_of (rev (zip (columnNames (columns rs2)) ld)))\<rparr>)"
          using len l2 by (simp add: snapshotOf_loaded)
        have "scanned d rs (rs2\<lparr>sqlRows := x2, loader := ld, err := e,
                   values := Some (map_of (rev (zip (columnNames (columns rs2)) ld)))\<rparr>)"
          unfolding scanned_def
          using sc True n x l2 by (intro exI [of _ "loader rs2"]) simp
        with True nx Inr ld cover sn show ?thesis
          by (auto simp add: Rows_ok_def)
      qed
    qed
  qed
qed

lemma garbledRows_eq:
  "garbledRows =
     \<lparr>sqlRows = \<lparr>handle = \<lparr>names = [''id''], pending = [], current = Some [VInt64 1, VInt64 2],
                           lasterr = None, closed = False\<rparr>,
                calls = [CallNext, CallScan]\<rparr>,
      err = Some (DriverError ''sql: wrong number of destination arguments''),
      columns = Some [''id''], loader = [VNil], values = Some Map.empty\<rparr>"
  by (simp add: garbledRows_def after_def rows_defs stream_defs script_defs fixture_defs)

lemma exhaustedRows_eq:
  "exhaustedRows =
     \<lparr>sqlRows = \<lparr>handle = \<lparr>names = peopleColumns, pending = [], current = None,
                           lasterr = None, closed = True\<rparr>,
                calls = [CallNext, CallScan, CallNext]\<rparr>,
      err = None, columns = Some peopleColumns, loader = john, values = Some johnSnapshot\<rparr>"
  by (simp add: exhaustedRows_def after_def numeral_2_eq_2 rows_defs stream_defs script_defs
      fixture_defs upt_conv_Cons)

lemma people_twice:
  "Next_times scripted 2 (newRows people) = Some ([True, False], exhaustedRows)"
  unfolding exhaustedRows_eq
  by (simp add: numeral_2_eq_2 rows_defs stream_defs script_defs fixture_defs upt_conv_Cons)

lemma interrupted_twice:
  "Next_times scripted 2 (newRows interrupted) = Some ([True, False], interruptedRows)"
  unfolding interruptedRows_eq
  by (simp add: numeral_2_eq_2 rows_defs stream_defs script_defs fixture_defs upt_conv_Cons)

text \<open>What Next does to the column names, and to the snapshot when it returns false.\<close>

lemma Next_columns:
  assumes "Rows_Next d rs = Some (b, rs')"
  shows "(b \<longrightarrow> columns rs' = (if columns rs = None
                               then fst (stream_Columns d (snd (stream_Next d (sqlRows rs))))
                               else columns rs))
       \<and> (columns rs \<noteq> None \<longrightarrow> columns rs' = columns rs)"
  using assms
  by (auto simp add: Rows_Next_def Rows_load_def Rows_prepare_def Let_def
      split: if_splits prod.splits sum.splits option.splits)

lemma Next_false_keeps:
  assumes "Rows_Next d rs = Some (False, rs')" and "columns rs \<noteq> None"
  shows "values rs' = values rs"
  using assms
  by (auto simp add: Rows_Next_def Rows_load_def Rows_prepare_def Let_def
      split: if_splits prod.splits sum.splits option.splits)

text \<open>The ragged result set, evaluated.\<close>

lemma raggedOnce:
  "Rows_Next scripted (newRows ragged) = Some (True,
     \<lparr>sqlRows = \<lparr>handle = \<lparr>names = peopleColumns, pending = [Fetched [VInt64 2]],
                           current = Some john, lasterr = None, closed = False\<rparr>,
                calls = [CallNext, CallScan]\<rparr>,
      err = None, columns = Some peopleColumns, loader = john,
      values = Some johnSnapshot\<rparr>)"
  by (simp add: rows_defs stream_defs script_defs fixture_defs ragged_def upt_conv_Cons)

lemma raggedFirst_eq:
  "raggedFirst =
     \<lparr>sqlRows = \<lparr>handle = \<lparr>names = peopleColumns, pending = [Fetched [VInt64 2]],
                           current = Some john, lasterr = None, closed = False\<rparr>,
                calls = [CallNext, CallScan]\<rparr>,
      err = None, columns = Some peopleColumns, loader = john,
      values = Some johnSnapshot\<rparr>"
  by (simp add: raggedFirst_def after_def raggedOnce)

lemma raggedRows_eq:
  "raggedRows =
     \<lparr>sqlRows = \<lparr>handle = \<lparr>names = peopleColumns, pending = [],
                           current = Some [VInt64 2], lasterr = None, closed = False\<rparr>,
                calls = [CallNext, CallScan, CallNext, CallScan]\<rparr>,
      err = Some (DriverError ''sql: wrong number of destination arguments''),
      columns = Some peopleColumns, loader = john,
      values = Some johnSnapshot\<rparr>"
  by (simp add: raggedRows_def after_def numeral_2_eq_2 raggedOnce)
    (simp add: rows_defs stream_defs script_defs fixture_defs)

lemma ragged_second: "Rows_Next scripted raggedFirst = Some (False, raggedRows)"
  unfolding raggedFirst_eq raggedRows_eq
  by (simp add: rows_defs stream_defs script_defs fixture_defs)

lemma garbled_first: "Rows_Next scripted (newRows garbled) = Some (False, garbledRows)"
  unfolding garbledRows_eq
  by (simp add: rows_defs stream_defs script_defs fixture_defs)

text \<open>
  C2, as stated, fails: Next never clears the snapshot. After the one row of a result set
  has been fetched and the stream is exhausted, and likewise after the stream breaks on
  the second fetch, the snapshot still holds the last row.
\<close>

theorem snapshot_cleared_counterexample:
  "Next_times scripted 2 (newRows people) = Some ([True, False], exhaustedRows)
   \<and> Rows_Err scripted exhaustedRows = None
   \<and> values exhaustedRows = Some johnSnapshot
   \<and> Next_times scripted 2 (newRows interrupted) = Some ([True, False], interruptedRows)
   \<and> Rows_Err scripted interruptedRows = Some (DriverError ''connection reset'')
   \<and> values interruptedRows = Some johnSnapshot
   \<and> johnSnapshot ''id'' = Some (VInt64 1)"
  by (simp add: people_twice interrupted_twice interruptedRows_Err)
    (simp add: exhaustedRows_eq interruptedRows_eq Rows_Err_def stream_Err_def scripted_def
      johnSnapshot_def)

text \<open>
  C2, amended. The snapshot of a new cursor is absent. Next on any cursor in one of its
  proper states (failed, columns not yet fetched, or holding the snapshot of its loader)
  returns without a panic and leaves such a state. When it returns true, the snapshot is
  exactly the row that Scan just stored in the loader, one entry per column name,
  replacing the previous row; the column names are those that the stream's Columns
  returned when the cursor had none yet, and the cursor's own ones afterwards. When it
  returns false (exhaustion, a stream error, a failure to fetch the columns or to scan),
  a cursor that has its columns keeps them and keeps its snapshot as it was: the snapshot
  is not cleared. Only on a cursor that had not fetched its columns yet can a false return
  change the snapshot: it is then empty, not absent, and the cursor has failed.
\<close>

theorem Next_snapshot:
  "Rows_ok (newRows s) \<and> values (newRows s) = None
   \<and> (Rows_ok rs \<longrightarrow>
        (\<exists>b rs'. Rows_Next d rs = Some (b, rs') \<and> Rows_ok rs'
           \<and> (b \<longrightarrow> snapshotOf rs' \<and> err rs' = None \<and> scanned d rs rs'
                     \<and> columns rs' = (if columns rs = None
                                       then fst (stream_Columns d (snd (stream_Next d (sqlRows rs))))
                                       else columns rs))
           \<and> (\<not> b \<longrightarrow> (columns rs \<noteq> None \<longrightarrow> columns rs' = columns rs)
                       \<and> (values rs' = values rs
                          \<or> (columns rs = None \<and> values rs' = Some Map.empty
                              \<and> err rs' \<noteq> None)))))"
proof (intro conjI impI)
  assume ok: "Rows_ok rs"
  from Next_step [OF ok, of d] obtain b rs' where n: "Rows_Next d rs = Some (b, rs')"
    and ok': "Rows_ok rs'"
    and t: "b \<longrightarrow> snapshotOf rs' \<and> err rs' = None \<and> scanned d rs rs'"
    and f: "\<not> b \<longrightarrow> values rs' = values rs \<or> (values rs' = Some Map.empty \<and> err rs' \<noteq> None)"
    by blast
  note c = Next_columns [OF n]
  have k: "\<not> b \<Longrightarrow> columns rs \<noteq> None \<Longrightarrow> values rs' = values rs"
    using n Next_false_keeps [of d rs rs'] by simp
  from n ok' t f c k
  show "\<exists>b rs'. Rows_Next d rs = Some (b, rs') \<and> Rows_ok rs'
           \<and> (b \<longrightarrow> snapshotOf rs' \<and> err rs' = None \<and> scanned d rs rs'
                     \<and> columns rs' = (if columns rs = None
                                       then fst (stream_Columns d (snd (stream_Next d (sqlRows rs))))
                                       else columns rs))
           \<and> (\<not> b \<longrightarrow> (columns rs \<noteq> None \<longrightarrow> columns rs' = columns rs)
                       \<and> (values rs' = values rs
                          \<or> (columns rs = None \<and> values rs' = Some Map.empty
                              \<and> err rs' \<noteq> None)))"
    by (intro exI [of _ b] exI [of _ rs']) blast
qed (simp_all add: Rows_ok_new)

theorem Next_snapshot_witness:
  "Rows_ok (newRows people)
   \<and> Rows_Next scripted (newRows people) = Some (True, johnRows)
   \<and> snapshotOf johnRows
   \<and> columns johnRows = Some peopleColumns
   \<and> values johnRows = Some johnSnapshot
   \<and> Rows_ok johnRows
   \<and> Rows_Next scripted johnRows = Some (False, exhaustedRows)
   \<and> values exhaustedRows = values johnRows
   \<and> Rows_ok raggedFirst
   \<and> Rows_Next scripted raggedFirst = Some (False, raggedRows)
   \<and> err raggedRows = Some (DriverError ''sql: wrong number of destination arguments'')
   \<and> values raggedRows = Some johnSnapshot
   \<and> Rows_Next scripted (newRows garbled) = Some (False, garbledRows)
   \<and> values garbledRows = Some Map.empty"
proof -
  have ok: "Rows_ok (newRows people)"
    using Next_snapshot [of people "newRows people" scripted] by blast
  have n1: "Rows_Next scripted (newRows people) = Some (True, johnRows)"
    by (simp add: people_Next johnRows_eq)
  from Next_snapshot [of people "newRows people" scripted] ok n1
  have s1: "snapshotOf johnRows \<and> Rows_ok johnRows"
    by auto
  have n2: "Rows_Next scripted johnRows = Some (False, exhaustedRows)"
    unfolding johnRows_eq exhaustedRows_eq
    by (simp add: rows_defs stream_defs script_defs)
  have c1: "columns johnRows \<noteq> None"
    by (simp add: johnRows_eq)
  from Next_snapshot [of people johnRows scripted] s1 n2 c1
  have k2: "values exhaustedRows = values johnRows"
    by auto
  have ok3: "Rows_ok raggedFirst"
    using Next_snapshot [of ragged "newRows ragged" scripted] raggedOnce raggedFirst_eq
    by auto
  have c3: "columns raggedFirst \<noteq> None"
    by (simp add: raggedFirst_eq)
  from Next_snapshot [of people "raggedFirst" scripted] ok3 ragged_second c3
  have k3: "values raggedRows = values raggedFirst"
    by auto
  from ok n1 s1 n2 k2 ok3 k3 show ?thesis
    by (simp add: ragged_second garbled_first)
      (simp add: johnRows_eq raggedFirst_eq raggedRows_eq garbledRows_eq)
qed

section \<open>Next after it has returned false\<close>

lemma Next_false_spent:
  assumes "staysExhausted d" and "Rows_Next d rs = Some (False, rs1)"
  shows "spent d rs1"
proof (cases "err rs = None")
  case False
  with assms show ?thesis
    by (simp add: Next_failed spent_def)
next
  case noerr: True
  obtain has x where n: "stream_Next d (sqlRows rs) = (has, x)"
    by (cases "stream_Next d (sqlRows rs)") auto
  show ?thesis
  proof (cases has)
    case False
    with noerr n assms(2) have "rs1 = rs\<lparr>sqlRows := x\<rparr>"
      by (simp add: Next_no_more)
    moreover from n False have "\<not> fst (sqlNext d (handle (sqlRows rs)))"
      and "handle x = snd (sqlNext d (handle (sqlRows rs)))"
      by (auto simp add: stream_Next_def split: prod.splits)
    ultimately show ?thesis
      using assms(1) by (simp add: spent_def staysExhausted_def)
  next
    case True
    with noerr n assms(2) have "err rs1 \<noteq> None"
      by (auto simp add: Next_more Rows_load_def Let_def dest: prepare_cases
          split: sum.splits prod.splits if_splits option.splits)
    then show ?thesis
      by (simp add: spent_def)
  qed
qed

lemma spent_Next:
  assumes "spent d rs"
  shows "\<exists>rs1. Rows_Next d rs = Some (False, rs1)"
proof (cases "err rs = None")
  case False
  then show ?thesis
    by (simp add: Next_failed)
next
  case True
  with assms have "\<not> fst (stream_Next d (sqlRows rs))"
    by (auto simp add: spent_def stream_Next_def split: prod.splits)
  with True show ?thesis
    by (cases "stream_Next d (sqlRows rs)") (simp add: Next_no_more)
qed

lemma spent_forever:
  "staysExhausted d \<Longrightarrow> spent d rs \<Longrightarrow> \<exists>rs2. Next_times d n rs = Some (replicate n False, rs2)"
proof (induction n arbitrary: rs)
  case 0
  then show ?case by simp
next
  case (Suc n)
  from spent_Next [OF Suc.prems(2)] obtain rs1 where n1: "Rows_Next d rs = Some (False, rs1)"
    by blast
  from Next_false_spent [OF Suc.prems(1) n1] have "spent d rs1" .
  from Suc.IH [OF Suc.prems(1) this] obtain rs2
    where "Next_times d n rs1 = Some (replicate n False, rs2)"
    by blast
  with n1 show ?case by simp
qed










section \<open>The single-row view: advancing and closing\<close>

lemma advances_simps [simp]:
  "advances [] = 0"
  "advances (CallNext # cs) = Suc (advances cs)"
  "advances (CallScan # cs) = advances cs"
  "advances (CallClose # cs) = advances cs"
  "advances (xs @ ys) = advances xs + advances ys"
  by (simp_all add: advances_def)

lemma calls_stream_Next: "calls (snd (stream_Next d x)) = calls x @ [CallNext]"
  by (simp add: stream_Next_def split: prod.splits)

lemma calls_Rows_Close [simp]:
  "calls (sqlRows (snd (Rows_Close d rs))) = calls (sqlRows rs) @ [CallClose]"
  by (simp add: Rows_Close_def stream_Close_def split: prod.splits)

lemma Rows_Close_keeps [simp]:
  "values (snd (Rows_Close d rs)) = values rs"
  "err (snd (Rows_Close d rs)) = err rs"
  "columns (snd (Rows_Close d rs)) = columns rs"
  "loader (snd (Rows_Close d rs)) = loader rs"
  by (simp_all add: Rows_Close_def split: prod.splits)

lemma calls_Rows_Next_bound:
  assumes "Rows_Next d rs = Some (b, rs1)"
  shows "\<exists>ops. calls (sqlRows rs1) = calls (sqlRows rs) @ ops \<and> advances ops \<le> 1
           \<and> (b \<longrightarrow> ops = [CallNext, CallScan])"
  using assms
  by (auto simp add: Rows_Next_def Rows_load_def Rows_prepare_def Let_def stream_Next_def
      stream_Scan_def split: if_splits prod.splits sum.splits option.splits)

lemma Rows_Close_calls:
  "Rows_Close d rs = (e, rs2) \<Longrightarrow> calls (sqlRows rs2) = calls (sqlRows rs) @ [CallClose]"
  using calls_Rows_Close [of d rs] by simp

lemma calls_deferredClose [simp]:
  "calls (sqlRows (deferredClose d rs)) = calls (sqlRows rs) @ [CallClose]"
  by (simp add: deferredClose_def)

lemma deferredClose_keeps [simp]:
  "values (deferredClose d rs) = values rs"
  by (simp add: deferredClose_def)

text \<open>What one call of next does to a view that has not advanced yet.\<close>

lemma Row_next_first:
  assumes "\<not> row_next r" and "rows r = Some rs" and "Rows_Next d rs = Some (found, rs1)"
  shows "Row_next d r =
           Some (if found then fst (Rows_Close d rs1) else Some (noRowError d rs1),
                 r\<lparr>row_next := True,
                    rows := Some (deferredClose d
                                   (if found then snd (Rows_Close d rs1) else rs1))\<rparr>)"
  using assms by (simp add: Row_next_def Let_def split: prod.splits)

lemma Row_next_done: "row_next r \<Longrightarrow> Row_next d r = Some (None, r)"
  by (simp add: Row_next_def)


lemma Row_next_trace:
  assumes "Row_next d r = Some (e, r1)"
  shows "row_next r1 \<and> (row_next r \<longrightarrow> r1 = r) \<and>
         (\<exists>ops. callsOf r1 = callsOf r @ ops \<and> advances ops \<le> 1 \<and>
                (ops \<noteq> [] \<longrightarrow> last ops = CallClose))"
proof (cases "row_next r")
  case True
  with assms show ?thesis
    by (simp add: Row_next_done)
next
  case False
  with assms obtain rs where rs: "rows r = Some rs"
    by (cases "rows r") (simp_all add: Row_next_def Let_def)
  with False assms obtain found rs1 where n: "Rows_Next d rs = Some (found, rs1)"
    by (cases "Rows_Next d rs") (auto simp add: Row_next_def Let_def)
  from calls_Rows_Next_bound [OF n] obtain ops
    where ops: "calls (sqlRows rs1) = calls (sqlRows rs) @ ops" "advances ops \<le> 1"
    by blast
  from Row_next_first [OF False rs n] assms
  have r1: "r1 = r\<lparr>row_next := True,
                    rows := Some (deferredClose d
                                   (if found then snd (Rows_Close d rs1) else rs1))\<rparr>"
    by simp
  show ?thesis
  proof (cases found)
    case True
    with r1 rs ops False show ?thesis
      by (intro conjI exI [of _ "ops @ [CallClose, CallClose]"]) (simp_all add: callsOf_def)
  next
    case nf: False
    with r1 rs ops False show ?thesis
      by (intro conjI exI [of _ "ops @ [CallClose]"]) (simp_all add: callsOf_def)
  qed
qed

lemma Row_get_trace:
  assumes "Row_get d getter r = Some (res, r1)"
  shows "row_next r1 \<and> (row_next r \<longrightarrow> r1 = r) \<and>
         (\<exists>ops. callsOf r1 = callsOf r @ ops \<and> advances ops \<le> 1 \<and>
                (ops \<noteq> [] \<longrightarrow> last ops = CallClose))"
proof -
  from assms obtain e where "Row_next d r = Some (e, r1)"
    by (auto simp add: Row_get_def split: option.splits)
  then show ?thesis
    by (rule Row_next_trace)
qed

lemma Row_Scan_trace:
  assumes "Row_Scan d r dest = Some (e, dest1, r1)"
  shows "\<exists>ops. callsOf r1 = callsOf r @ ops \<and> advances ops \<le> 1 \<and>
                (ops \<noteq> [] \<longrightarrow> last ops = CallClose)"
proof (cases "row_err r")
  case (Some e0)
  with assms show ?thesis
    by (simp add: Row_Scan_def)
next
  case None
  with assms obtain rs where rs: "rows r = Some rs"
    by (cases "rows r") (simp_all add: Row_Scan_def)
  with None assms obtain found rs1 where n: "Rows_Next d rs = Some (found, rs1)"
    by (cases "Rows_Next d rs") (auto simp add: Row_Scan_def)
  from calls_Rows_Next_bound [OF n] obtain ops
    where ops: "calls (sqlRows rs1) = calls (sqlRows rs) @ ops" "advances ops \<le> 1"
      "found \<longrightarrow> ops = [CallNext, CallScan]"
    by blast
  show ?thesis
  proof (cases found)
    case False
    with assms None rs n ops show ?thesis
      by (intro exI [of _ "ops @ [CallClose]"]) (auto simp add: Row_Scan_def callsOf_def)
  next
    case True
    obtain e2 d2 x2 where sc: "stream_Scan d (sqlRows rs1) dest = (e2, d2, x2)"
      by (cases "stream_Scan d (sqlRows rs1) dest") auto
    then have x2: "calls x2 = calls (sqlRows rs1) @ [CallScan]"
      by (auto simp add: stream_Scan_def split: prod.splits)
    show ?thesis
    proof (cases "e2 = None")
      case False
      with assms None rs n ops True sc x2 show ?thesis
        by (intro exI [of _ "ops @ [CallScan, CallClose]"])
          (auto simp add: Row_Scan_def callsOf_def Let_def)
    next
      case e2: True
      with assms None rs n ops True sc x2 show ?thesis
        by (intro exI [of _ "ops @ [CallScan, CallClose, CallClose]"])
          (auto simp add: Row_Scan_def callsOf_def Let_def split: prod.splits
            dest!: Rows_Close_calls)
    qed
  qed
qed

lemma Row_call_trace:
  assumes "Row_call d r q = Some r1"
  shows "\<exists>ops. callsOf r1 = callsOf r @ ops \<and> advances ops \<le> 1 \<and>
                (ops \<noteq> [] \<longrightarrow> last ops = CallClose)"
proof (cases q)
  case (CallScanRow dest)
  with assms obtain e dest1 where "Row_Scan d r dest = Some (e, dest1, r1)"
    by auto
  then show ?thesis
    by (rule Row_Scan_trace)
qed (use assms in \<open>auto simp add: Row_GetBoolean_def Row_GetInteger_def Row_GetDouble_def
      Row_GetString_def Row_GetTime_def dest: Row_get_trace\<close>)

lemma getter_call:
  assumes "isGetter q" and "Row_call d r q = Some r1"
  shows "row_next r1 \<and> (row_next r \<longrightarrow> r1 = r)"
  using assms
  by (cases q)
    (auto simp add: Row_GetBoolean_def Row_GetInteger_def Row_GetDouble_def
      Row_GetString_def Row_GetTime_def dest: Row_get_trace)

lemma getters_idle:
  "row_next r \<Longrightarrow> list_all isGetter qs \<Longrightarrow> Row_calls d r qs = Some r1 \<Longrightarrow> r1 = r"
proof (induction qs arbitrary: r)
  case Nil
  then show ?case by simp
next
  case (Cons q qs)
  from Cons.prems obtain r2 where c: "Row_call d r q = Some r2" and rest: "Row_calls d r2 qs = Some r1"
    by (auto split: option.splits)
  from getter_call [OF _ c] Cons.prems have "r2 = r"
    by simp
  with Cons rest show ?case
    by simp
qed

lemma getters_trace:
  assumes "list_all isGetter qs" and "Row_calls d r qs = Some r1"
  shows "(row_next r \<longrightarrow> r1 = r) \<and>
         (\<exists>ops. callsOf r1 = callsOf r @ ops \<and> advances ops \<le> 1 \<and>
                (ops \<noteq> [] \<longrightarrow> last ops = CallClose))"
proof (cases qs)
  case Nil
  with assms show ?thesis by simp
next
  case (Cons q qs')
  with assms obtain r2 where c: "Row_call d r q = Some r2" and rest: "Row_calls d r2 qs' = Some r1"
    by (auto split: option.splits)
  from Cons assms have g: "isGetter q" "list_all isGetter qs'"
    by simp_all
  from getter_call [OF g(1) c] have n2: "row_next r2" and same: "row_next r \<longrightarrow> r2 = r"
    by simp_all
  from getters_idle [OF n2 g(2) rest] have "r1 = r2" .
  with same Row_call_trace [OF c] show ?thesis
    by simp
qed

lemmas row_defs = Row_next_def Row_get_def Row_Scan_def Row_GetBoolean_def Row_GetInteger_def
  Row_GetDouble_def Row_GetString_def Row_GetTime_def QueryRow_def deferredClose_def noRowError_def

lemma people_first_getter:
  "Row_next scripted (QueryRow (Inr people)) = Some (None, johnRow)"
  by (simp add: Row_next_def QueryRow_def people_Next)
    (simp add: deferredClose_def Rows_Close_def stream_Close_def scripted_def scriptClose_def
      johnRow_def)

text \<open>
  One call on a single-row view, Scan or a typed getter, advances the stream at most once,
  and if it touched the stream at all, the last thing it did was to close it. Across any
  sequence of typed getters the stream is advanced at most once: only the first getter
  advances, and a getter on a view that has already advanced leaves the view and its
  stream as they are.
\<close>

lemma calls_advance_once:
  "(Row_call d r q = Some r1 \<longrightarrow>
      (\<exists>ops. callsOf r1 = callsOf r @ ops \<and> advances ops \<le> 1 \<and>
             (ops \<noteq> [] \<longrightarrow> last ops = CallClose)))
   \<and> (list_all isGetter qs \<and> Row_calls d r qs = Some r2 \<longrightarrow>
        (row_next r \<longrightarrow> r2 = r) \<and>
        (\<exists>ops. callsOf r2 = callsOf r @ ops \<and> advances ops \<le> 1 \<and>
               (ops \<noteq> [] \<longrightarrow> last ops = CallClose)))"
  using Row_call_trace [of d r q r1] getters_trace [of qs d r r2] by blast

text \<open>The query for john, read by Scan and then by a getter.\<close>

lemma people_Scan:
  "Row_Scan scripted (QueryRow (Inr people)) (replicate 5 VNil) = Some (None, john, afterScan)"
  by (simp add: Row_Scan_def QueryRow_def people_Next)
    (simp add: stream_defs script_defs scanInto_def john_def deferredClose_def Rows_Close_def
      afterScan_def numeral_eq_Suc)

lemma afterScan_Next:
  "Rows_Next scripted
     \<lparr>sqlRows = \<lparr>handle = \<lparr>names = peopleColumns, pending = [], current = Some john,
                              lasterr = None, closed = True\<rparr>,
                   calls = [CallNext, CallScan, CallScan, CallClose, CallClose]\<rparr>,
         err = None, columns = Some peopleColumns, loader = john,
         values = Some johnSnapshot\<rparr>
   = Some (False,
     \<lparr>sqlRows = \<lparr>handle = \<lparr>names = peopleColumns, pending = [], current = Some john,
                              lasterr = None, closed = True\<rparr>,
                   calls = [CallNext, CallScan, CallScan, CallClose, CallClose, CallNext]\<rparr>,
         err = None, columns = Some peopleColumns, loader = john,
         values = Some johnSnapshot\<rparr>)"
  by (simp add: Rows_Next_def stream_defs script_defs)

lemma afterScan_getter:
  "Row_GetInteger scripted afterScan ''id'' = Some (Inl ErrNoRows, afterScanGet)"
  by (simp add: Row_GetInteger_def Row_get_def Row_next_def afterScan_def afterScan_Next)
    (simp add: noRowError_def Rows_Err_def deferredClose_def Rows_Close_def stream_defs
      script_defs afterScanGet_def)

lemma people_first_value:
  "Row_GetInteger scripted (QueryRow (Inr people)) ''id'' = Some (Inr 1, johnRow)"
  by (simp add: Row_GetInteger_def Row_get_def people_first_getter)
    (simp add: johnRow_def Rows_GetInteger_def validateRows_def Rows_Err_def stream_Err_def
      scripted_def valueAt_def johnSnapshot_def)

text \<open>
  C1. The claim: across any sequence of Scan and typed-getter calls on a single-row view
  the underlying cursor is advanced at most once, and it is closed after the first advance
  attempt on every exit path. Scan does not read or set the flag by which next, behind
  every getter, advances only once. On a view whose query found john, Scan returns the row
  and closes the stream; the getter that follows runs the stream's Next a second time, on
  the closed stream, and answers ErrNoRows, where the same getter called first on that
  query answers 1. The stream is closed after each of the two advances.
\<close>

theorem Row_Scan_then_getter:
  "Row_Scan scripted (QueryRow (Inr people)) (replicate 5 VNil) = Some (None, john, afterScan)
   \<and> Row_GetInteger scripted afterScan ''id'' = Some (Inl ErrNoRows, afterScanGet)
   \<and> callsOf afterScanGet
       = [CallNext, CallScan, CallScan, CallClose, CallClose, CallNext, CallClose]
   \<and> advances (callsOf afterScanGet) = 2
   \<and> Row_GetInteger scripted (QueryRow (Inr people)) ''id'' = Some (Inr 1, johnRow)"
  by (simp add: people_Scan afterScan_getter people_first_value)
    (simp add: callsOf_def afterScanGet_def)

section \<open>The single-row view: no row, one row\<close>














section \<open>The registry: what every state satisfies\<close>

lemma update_fresh:
  "map_of al k = None \<Longrightarrow> AList.update k v al = al @ [(k, v)]"
  by (induction al) (auto split: if_splits)

lemma delete_filter: "AList.delete k al = filter (\<lambda>kv. fst kv \<noteq> k) al"
  by (induction al) auto

lemma distinct_refs_filter:
  "distinct (map (\<lambda>kv. ref (snd kv)) al) \<Longrightarrow> distinct (map (\<lambda>kv. ref (snd kv)) (filter P al))"
  by (rule distinct_map_filter)

lemma registry_ok_init: "registry_ok (init w)"
  by (simp add: registry_ok_def init_def)

lemma registry_ok_world: "registry_ok (g\<lparr>world := w\<rparr>) = registry_ok g"
  by (simp add: registry_ok_def)

lemma registry_ok_filter:
  "registry_ok g \<Longrightarrow> registry_ok (g\<lparr>pool := filter P (pool g), world := w\<rparr>)"
  by (auto simp add: registry_ok_def distinct_map_filter list_all_iff)

lemma registry_ok_fewer:
  "registry_ok g \<Longrightarrow> registry_ok (g\<lparr>pool := filter P (pool g)\<rparr>)"
  by (auto simp add: registry_ok_def distinct_map_filter list_all_iff)

lemma registry_ok_register:
  assumes "registry_ok g" and "map_of (pool g) name = None"
  shows "registry_ok (snd (register name c g))"
proof -
  from assms(2) have "name \<notin> fst ` set (pool g)"
    by (simp add: map_of_eq_None_iff)
  with assms show ?thesis
    by (auto simp add: registry_ok_def register_def Let_def update_fresh list_all_iff)
qed

lemma registry_ok_New: "registry_ok g \<Longrightarrow> registry_ok (snd (New pk name driver dsn g))"
  by (auto simp add: New_def registry_ok_register registry_ok_world
      split: prod.splits sum.splits)

lemma registry_ok_NewWithDB: "registry_ok g \<Longrightarrow> registry_ok (snd (NewWithDB name c g))"
  by (simp add: NewWithDB_def registry_ok_register)

lemma deregister_cases:
  "deregister db keys p = p \<or> (\<exists>key. deregister db keys p = filter (\<lambda>kv. fst kv \<noteq> key) p)"
  by (induction keys) (auto simp add: delete_filter)

lemma registry_ok_DB_Close: "registry_ok g \<Longrightarrow> registry_ok (snd (DB_Close pk db g))"
  using deregister_cases [of db "map fst (pool g)" "pool g"]
  by (auto simp add: DB_Close_def registry_ok_world registry_ok_fewer
      split: prod.splits option.splits)

text \<open>The handle registered under a name is found by its address, whatever the visiting order.\<close>

lemma ref_inj:
  assumes "distinct (map (\<lambda>kv. ref (snd kv)) p)"
    and "(k, h) \<in> set p" and "(k', h') \<in> set p" and "ref h = ref h'"
  shows "k = k'"
proof -
  from assms(1) have "inj_on (\<lambda>kv. ref (snd kv)) (set p)"
    by (simp add: distinct_map)
  from inj_onD [OF this, of "(k, h)" "(k', h')"] assms show ?thesis
    by simp
qed

lemma deregister_found:
  assumes "distinct (map fst p)" and "distinct (map (\<lambda>kv. ref (snd kv)) p)"
    and "map_of p name = Some db" and "name \<in> set keys" and "set keys \<subseteq> fst ` set p"
  shows "deregister db keys p = filter (\<lambda>kv. fst kv \<noteq> name) p"
  using assms(4,5)
proof (induction keys)
  case Nil
  then show ?case
    by simp
next
  case (Cons key keys)
  from assms(3) have in_p: "(name, db) \<in> set p"
    by (rule map_of_SomeD)
  from Cons.prems obtain h where h: "map_of p key = Some h"
    using assms(1) by (auto simp add: map_of_eq_None_iff [symmetric] simp del: map_of_eq_None_iff)
  then have key_p: "(key, h) \<in> set p"
    by (rule map_of_SomeD)
  show ?case
  proof (cases "ref h = ref db")
    case True
    from ref_inj [OF assms(2) key_p in_p True] have "key = name" .
    with h True show ?thesis
      by (simp add: delete_filter)
  next
    case False
    with assms(3) h have "key \<noteq> name"
      by auto
    with Cons False h show ?thesis
      by auto
  qed
qed

lemma DB_Close_removes:
  assumes "registry_ok g" and "Get name g = Some db" and "DB_Close pk db g = (None, g1)"
  shows "pool g1 = filter (\<lambda>kv. fst kv \<noteq> name) (pool g)"
proof -
  from assms(2) have m: "map_of (pool g) name = Some db"
    by (simp add: Get_def)
  then have "name \<in> set (map fst (pool g))"
    by (force dest: map_of_SomeD simp add: image_iff)
  with assms(1) m
  have "deregister db (map fst (pool g)) (pool g) = filter (\<lambda>kv. fst kv \<noteq> name) (pool g)"
    by (intro deregister_found) (auto simp add: registry_ok_def)
  with assms(3) show ?thesis
    by (auto simp add: DB_Close_def split: prod.splits option.splits)
qed

text \<open>The loop of Close, on the entries still to visit.\<close>

lemma Close_loop_entries:
  assumes "distinct (map fst q)" and "\<forall>kv \<in> set q. map_of (pool g) (fst kv) = Some (snd kv)"
  shows "Close_loop pk (map fst q) g =
           Some (g\<lparr>pool := filter (\<lambda>kv. (fst kv, None) \<notin> set (fst (closeEach pk q (world g))))
                             (pool g),
                   world := snd (closeEach pk q (world g))\<rparr>,
                 fst (closeEach pk q (world g)))
         \<and> map fst (fst (closeEach pk q (world g))) = map fst q"
  using assms
proof (induction q arbitrary: g)
  case Nil
  then show ?case
    by simp
next
  case (Cons kv q)
  obtain e w where c: "sqlDBClose pk (sqlDB (snd kv)) (world g) = (e, w)"
    by (cases "sqlDBClose pk (sqlDB (snd kv)) (world g)") auto
  define g1 where "g1 = (if e = None then g\<lparr>pool := AList.delete (fst kv) (pool g), world := w\<rparr>
                         else g\<lparr>world := w\<rparr>)"
  have w1: "world g1 = w"
    by (simp add: g1_def)
  have p1: "pool g1 = (if e = None then filter (\<lambda>x. fst x \<noteq> fst kv) (pool g) else pool g)"
    by (simp add: g1_def delete_filter)
  from Cons.prems have here: "map_of (pool g) (fst kv) = Some (snd kv)"
    by simp
  have rest: "\<forall>x \<in> set q. map_of (pool g1) (fst x) = Some (snd x)"
  proof
    fix x
    assume x: "x \<in> set q"
    then have "fst x \<in> fst ` set q"
      by (rule imageI)
    moreover from Cons.prems(1) have "fst kv \<notin> fst ` set q"
      by simp
    ultimately have "fst x \<noteq> fst kv"
      by metis
    moreover from x Cons.prems(2) have "map_of (pool g) (fst x) = Some (snd x)"
      by simp
    ultimately have "fst x \<noteq> fst kv" and "map_of (pool g) (fst x) = Some (snd x)"
      by simp_all
    then show "map_of (pool g1) (fst x) = Some (snd x)"
      by (simp add: g1_def delete_conv')
  qed
  from Cons.prems have dq: "distinct (map fst q)"
    by simp
  note ih = Cons.IH [OF dq rest]
  obtain es w2 where ce: "closeEach pk q w = (es, w2)"
    by (cases "closeEach pk q w") auto
  from ih ce w1 have keys: "map fst es = map fst q"
    by simp
  with Cons.prems have fresh: "(fst kv, x) \<notin> set es" for x
    by (metis distinct.simps(2) fst_conv image_eqI list.simps(9) set_map)
  have "Close_loop pk (map fst (kv # q)) g =
          (case Close_loop pk (map fst q) g1 of
             None \<Rightarrow> None
           | Some (g2, outcomes) \<Rightarrow> Some (g2, (fst kv, e) # outcomes))"
    using here c by (simp add: g1_def Let_def)
  also from ih ce w1
  have "\<dots> = Some (g1\<lparr>pool := filter (\<lambda>x. (fst x, None) \<notin> set es) (pool g1), world := w2\<rparr>,
                    (fst kv, e) # es)"
    by simp
  also have "g1\<lparr>pool := filter (\<lambda>x. (fst x, None) \<notin> set es) (pool g1), world := w2\<rparr>
             = g\<lparr>pool := filter (\<lambda>x. (fst x, None) \<notin> set ((fst kv, e) # es)) (pool g),
                  world := w2\<rparr>"
    using fresh by (auto simp add: g1_def delete_filter intro!: filter_cong)
  finally show ?case
    using c ce keys by simp
qed

lemma Close_entries:
  assumes "distinct (map fst (pool g))"
  shows "Close pk g =
           Some (g\<lparr>pool := filter (\<lambda>kv. (fst kv, None) \<notin> set (fst (closeEach pk (pool g) (world g))))
                             (pool g),
                   world := snd (closeEach pk (pool g) (world g))\<rparr>,
                 fst (closeEach pk (pool g) (world g)))
         \<and> map fst (fst (closeEach pk (pool g) (world g))) = map fst (pool g)"
  unfolding Close_def using assms
  by (intro Close_loop_entries) auto

lemma registry_ok_Close:
  assumes "registry_ok g" and "Close pk g = Some (g1, outcomes)"
  shows "registry_ok g1"
proof -
  from assms(1) have "distinct (map fst (pool g))"
    by (simp add: registry_ok_def)
  from Close_entries [OF this, of pk] assms(2)
  have "g1 = g\<lparr>pool := filter (\<lambda>kv. (fst kv, None) \<notin> set outcomes) (pool g), world := world g1\<rparr>"
    by auto
  with registry_ok_filter [OF assms(1)] show ?thesis
    by metis
qed


lemma map_of_filter_fst:
  "map_of (filter (\<lambda>kv. Q (fst kv)) al) k = (if Q k then map_of al k else None)"
  by (induction al) auto

lemma Databases_set: "set (Databases g) = {name. Get name g \<noteq> None}"
  by (auto simp add: Databases_def Get_def map_of_eq_None_iff image_iff)

lemma Databases_filter:
  "set (Databases (g\<lparr>pool := filter (\<lambda>kv. Q (fst kv)) (pool g), world := w\<rparr>))
   = set (Databases g) - {name. \<not> Q name}"
  by (auto simp add: Databases_def)

section \<open>The fixtures of the registry, evaluated\<close>

lemma twoNames_opened:
  "New testPkg ''b'' ''postgres'' ''dsn'' (init 0)
     = (Inr \<lparr>ref = 0, sqlDB = 0\<rparr>,
        \<lparr>pool = [(''b'', \<lparr>ref = 0, sqlDB = 0\<rparr>)], free = 1, world = 1\<rparr>)"
  "New testPkg ''a'' ''postgres'' ''dsn''
       \<lparr>pool = [(''b'', \<lparr>ref = 0, sqlDB = 0\<rparr>)], free = 1, world = 1\<rparr>
     = (Inr \<lparr>ref = 1, sqlDB = 1\<rparr>, twoNames)"
  by (simp_all add: New_def init_def testPkg_def register_def twoNames_def Let_def numeral_2_eq_2)

lemma twoNames_ok: "registry_ok twoNames"
  by (simp add: registry_ok_def twoNames_def)

lemma twoNames_Get:
  "Get ''a'' twoNames = Some \<lparr>ref = 1, sqlDB = 1\<rparr>"
  "Get ''b'' twoNames = Some \<lparr>ref = 0, sqlDB = 0\<rparr>"
  by (simp_all add: Get_def twoNames_def)

lemma twoNames_DB_Close:
  "DB_Close testPkg \<lparr>ref = 0, sqlDB = 0\<rparr> twoNames
     = (None, \<lparr>pool = [(''a'', \<lparr>ref = 1, sqlDB = 1\<rparr>)], free = 2, world = 2\<rparr>)"
  "DB_Close testPkg \<lparr>ref = 1, sqlDB = 1\<rparr> twoNames
     = (Some (DriverError ''close failed''), twoNames)"
  by (simp_all add: DB_Close_def testPkg_def twoNames_def)

lemma twoNames_Close:
  "Close testPkg twoNames
     = Some (\<lparr>pool = [(''a'', \<lparr>ref = 1, sqlDB = 1\<rparr>)], free = 2, world = 2\<rparr>,
             [(''b'', None), (''a'', Some (DriverError ''close failed''))])"
  by (simp add: Close_def testPkg_def twoNames_def)

section \<open>Duplicate names\<close>

text \<open>
  C7. When a handle is registered under a name, New and NewWithDB with that name return
  ErrDupConnName and the registry they were given: sql.Open is not called, no entry changes,
  and the name still gives the same handle.
\<close>

theorem New_duplicate:
  assumes "Get name g = Some h"
  shows "New pk name driver dsn g = (Inl ErrDupConnName, g)
       \<and> NewWithDB name c g = (Inl ErrDupConnName, g)
       \<and> Get name (snd (New pk name driver dsn g)) = Some h
       \<and> Get name (snd (NewWithDB name c g)) = Some h"
  using assms by (simp add: New_def NewWithDB_def Get_def)

theorem New_duplicate_witness:
  "Get ''a'' twoNames = Some \<lparr>ref = 1, sqlDB = 1\<rparr>
   \<and> New testPkg ''a'' ''postgres'' ''dsn'' twoNames = (Inl ErrDupConnName, twoNames)
   \<and> NewWithDB ''a'' 7 twoNames = (Inl ErrDupConnName, twoNames)
   \<and> Get ''a'' (snd (NewWithDB ''a'' 7 twoNames)) = Some \<lparr>ref = 1, sqlDB = 1\<rparr>"
  using New_duplicate [of "''a''" twoNames "\<lparr>ref = 1, sqlDB = 1\<rparr>" testPkg "''postgres''"
      "''dsn''" 7]
  by (simp add: twoNames_Get)

section \<open>The list of names\<close>

text \<open>
  C8. In every state of the registry, Databases is sorted, has no duplicates and holds
  exactly the registered names. After DB.Close on the handle registered under a name has
  succeeded, the names listed are the former ones without that name; after Close, they are
  the former ones without the names whose underlying close succeeded.
\<close>

theorem Databases_sorted:
  assumes "registry_ok g"
  shows "sorted (Databases g) \<and> distinct (Databases g)
       \<and> set (Databases g) = {name. Get name g \<noteq> None}
       \<and> (Get name g = Some db \<and> DB_Close pk db g = (None, g1) \<longrightarrow>
            registry_ok g1 \<and> name \<notin> set (Databases g1)
            \<and> set (Databases g1) = set (Databases g) - {name})
       \<and> (Close pk g = Some (g2, outcomes) \<longrightarrow>
            registry_ok g2
            \<and> set (Databases g2) = set (Databases g) - {name. (name, None) \<in> set outcomes})"
proof (intro conjI impI)
  from assms have d: "distinct (map fst (pool g))"
    by (simp add: registry_ok_def)
  show "sorted (Databases g)"
    by (simp add: Databases_def)
  from d show "distinct (Databases g)"
    by (simp add: Databases_def)
  show "set (Databases g) = {name. Get name g \<noteq> None}"
    by (rule Databases_set)
  {
    assume a: "Get name g = Some db \<and> DB_Close pk db g = (None, g1)"
    from a registry_ok_DB_Close [OF assms, of pk db] show "registry_ok g1"
      by simp
    from a DB_Close_removes [OF assms, of name db pk g1]
    have p: "pool g1 = filter (\<lambda>kv. fst kv \<noteq> name) (pool g)"
      by simp
    then show "name \<notin> set (Databases g1)"
      by (auto simp add: Databases_def)
    from p show "set (Databases g1) = set (Databases g) - {name}"
      by (auto simp add: Databases_def)
  }
  {
    assume a: "Close pk g = Some (g2, outcomes)"
    with assms show "registry_ok g2"
      by (rule registry_ok_Close)
    from Close_entries [OF d, of pk] a
    have "pool g2 = filter (\<lambda>kv. (fst kv, None) \<notin> set outcomes) (pool g)"
      by auto
    then show "set (Databases g2) = set (Databases g) - {name. (name, None) \<in> set outcomes}"
      by (auto simp add: Databases_def)
  }
qed

theorem Databases_sorted_witness:
  "registry_ok twoNames
   \<and> Databases twoNames = [''a'', ''b'']
   \<and> sorted (Databases twoNames) \<and> distinct (Databases twoNames)
   \<and> Get ''b'' twoNames = Some \<lparr>ref = 0, sqlDB = 0\<rparr>
   \<and> DB_Close testPkg \<lparr>ref = 0, sqlDB = 0\<rparr> twoNames
       = (None, \<lparr>pool = [(''a'', \<lparr>ref = 1, sqlDB = 1\<rparr>)], free = 2, world = 2\<rparr>)
   \<and> ''b'' \<notin> set (Databases \<lparr>pool = [(''a'', \<lparr>ref = 1, sqlDB = 1\<rparr>)], free = 2, world = 2::nat\<rparr>)
   \<and> Close testPkg twoNames
       = Some (\<lparr>pool = [(''a'', \<lparr>ref = 1, sqlDB = 1\<rparr>)], free = 2, world = 2\<rparr>,
               [(''b'', None), (''a'', Some (DriverError ''close failed''))])
   \<and> Databases \<lparr>pool = [(''a'', \<lparr>ref = 1, sqlDB = 1\<rparr>)], free = 2, world = 2::nat\<rparr> = [''a'']"
proof -
  have n: "Databases twoNames = [''a'', ''b'']"
    by (simp add: Databases_def twoNames_def)
  have m: "Databases \<lparr>pool = [(''a'', \<lparr>ref = 1, sqlDB = 1\<rparr>)], free = 2, world = 2::nat\<rparr> = [''a'']"
    by (simp add: Databases_def)
  from Databases_sorted [OF twoNames_ok, of "''b''" "\<lparr>ref = 0, sqlDB = 0\<rparr>" testPkg
      "\<lparr>pool = [(''a'', \<lparr>ref = 1, sqlDB = 1\<rparr>)], free = 2, world = 2\<rparr>"
      "\<lparr>pool = [(''a'', \<lparr>ref = 1, sqlDB = 1\<rparr>)], free = 2, world = 2\<rparr>"
      "[(''b'', None), (''a'', Some (DriverError ''close failed''))]"]
  have "sorted (Databases twoNames) \<and> distinct (Databases twoNames)
        \<and> ''b'' \<notin> set (Databases \<lparr>pool = [(''a'', \<lparr>ref = 1, sqlDB = 1\<rparr>)], free = 2, world = 2::nat\<rparr>)"
    by (simp add: twoNames_Get twoNames_DB_Close)
  with n m show ?thesis
    by (simp add: twoNames_ok twoNames_Get twoNames_DB_Close twoNames_Close)
qed

section \<open>Closing every connection\<close>

text \<open>
  C9. Close closes the handle of every registered name once, in visiting order, and comes
  back. A name whose underlying close returned an error is still registered, with the same
  handle; a name whose underlying close succeeded is no longer registered; the entries
  that stay keep their order.
\<close>

theorem Close_all:
  assumes "distinct (map fst (pool g))"
  shows "\<exists>g1 outcomes.
           Close pk g = Some (g1, outcomes)
           \<and> outcomes = fst (closeEach pk (pool g) (world g))
           \<and> map fst outcomes = map fst (pool g)
           \<and> world g1 = snd (closeEach pk (pool g) (world g))
           \<and> pool g1 = filter (\<lambda>kv. (fst kv, None) \<notin> set outcomes) (pool g)
           \<and> (\<forall>name e. (name, Some e) \<in> set outcomes \<longrightarrow>
                  Get name g \<noteq> None \<and> Get name g1 = Get name g)
           \<and> (\<forall>name. (name, None) \<in> set outcomes \<longrightarrow>
                  Get name g \<noteq> None \<and> Get name g1 = None)"
proof -
  define outcomes where "outcomes = fst (closeEach pk (pool g) (world g))"
  define g1 where "g1 = g\<lparr>pool := filter (\<lambda>kv. (fst kv, None) \<notin> set outcomes) (pool g),
                           world := snd (closeEach pk (pool g) (world g))\<rparr>"
  from Close_entries [OF assms, of pk]
  have c: "Close pk g = Some (g1, outcomes)" and k: "map fst outcomes = map fst (pool g)"
    by (simp_all add: g1_def outcomes_def)
  from k assms have dk: "distinct (map fst outcomes)"
    by simp
  have known: "Get name g \<noteq> None" if "(name, x) \<in> set outcomes" for name x
  proof -
    from that have "name \<in> set (map fst outcomes)"
      by force
    with k show ?thesis
      by (simp add: Get_def map_of_eq_None_iff)
  qed
  have look: "Get name g1 = (if (name, None) \<notin> set outcomes then Get name g else None)" for name
    by (simp add: g1_def Get_def map_of_filter_fst [of "\<lambda>k. (k, None) \<notin> set outcomes"])
  have kept: "Get name g1 = Get name g" if "(name, Some e) \<in> set outcomes" for name e
  proof -
    from eq_key_imp_eq_value [OF dk that] have "(name, None) \<notin> set outcomes"
      by auto
    then show ?thesis
      by (simp add: look)
  qed
  from c k known kept look show ?thesis
    by (intro exI [of _ g1] exI [of _ outcomes]) (auto simp add: g1_def outcomes_def)
qed

theorem Close_all_witness:
  "distinct (map fst (pool twoNames))
   \<and> Close testPkg twoNames
       = Some (\<lparr>pool = [(''a'', \<lparr>ref = 1, sqlDB = 1\<rparr>)], free = 2, world = 2\<rparr>,
               [(''b'', None), (''a'', Some (DriverError ''close failed''))])
   \<and> Get ''a'' \<lparr>pool = [(''a'', \<lparr>ref = 1, sqlDB = 1\<rparr>)], free = 2, world = 2::nat\<rparr>
       = Get ''a'' twoNames
   \<and> Get ''a'' twoNames = Some \<lparr>ref = 1, sqlDB = 1\<rparr>
   \<and> Get ''b'' twoNames = Some \<lparr>ref = 0, sqlDB = 0\<rparr>
   \<and> Get ''b'' \<lparr>pool = [(''a'', \<lparr>ref = 1, sqlDB = 1\<rparr>)], free = 2, world = 2::nat\<rparr> = None"
proof -
  have d: "distinct (map fst (pool twoNames))"
    by (simp add: twoNames_def)
  from Close_all [OF d, of testPkg]
  have "Get ''a'' \<lparr>pool = [(''a'', \<lparr>ref = 1, sqlDB = 1\<rparr>)], free = 2, world = 2::nat\<rparr>
          = Get ''a'' twoNames
        \<and> Get ''b'' \<lparr>pool = [(''a'', \<lparr>ref = 1, sqlDB = 1\<rparr>)], free = 2, world = 2::nat\<rparr> = None"
    by (auto simp add: twoNames_Close)
  with d show ?thesis
    by (simp add: twoNames_Close twoNames_Get)
qed

end
